theory Spec2Isabelle
  imports Main "HOL-Library.AList" "HOL-Library.Char_ord" "HOL-Library.List_Lexorder"
    "HOL-Library.Product_Lexorder" "HOL-Library.Sublist"
begin

section \<open>The outbox of libfritter: keyed records over an SQLite table\<close>

text \<open>
  The development embeds \<^verbatim>\<open>src/libfritter/sqlitewrapper.py\<close>: the class
  \<^verbatim>\<open>KeyedSqliteThing\<close> (load, save, delete, attribute interception), its
  subclass \<^verbatim>\<open>AgedKeyedSqliteThing\<close> (timestamps as text) and the concrete class
  \<^verbatim>\<open>PendingSend\<close> (the outbox entry and the scan \<^verbatim>\<open>Unsent\<close>).

  A method of the source that reads or writes the instance and the database becomes a
  function from the instance and the store to an outcome, the instance and the store
  afterwards; an exception is the outcome \<open>Some err\<close>.
\<close>

subsection \<open>Values and the table\<close>

text \<open>
  The values the \<^verbatim>\<open>sqlite3\<close> module binds to a statement and reads from a row:
  \<^verbatim>\<open>None\<close> is SQL NULL, a Python \<^verbatim>\<open>int\<close> an INTEGER, a \<^verbatim>\<open>str\<close> a TEXT.
\<close>

datatype sqlval = Null | IntV int | TextV string

text \<open>
  A row of the table \<^verbatim>\<open>outbox\<close>: the primary key \<^verbatim>\<open>id\<close> and the other columns by
  name. The store is the list of rows in insertion order.
\<close>

record row =
  rid :: int
  cols :: "string \<Rightarrow> sqlval"

type_synonym store = "row list"

text \<open>
  Modelled from the spec: the declaration of the table \<^verbatim>\<open>outbox\<close> (the schema is created
  outside \<^verbatim>\<open>src/\<close>). Section 6 of the specification lists the columns besides \<^verbatim>\<open>id\<close>,
  that \<^verbatim>\<open>id\<close> is the primary key and is assigned by the store when absent, that
  \<^verbatim>\<open>request_time\<close> is the time of enqueueing and that \<^verbatim>\<open>retry_count\<close> defaults to 0.
  A column holds the value bound to it as it is; no other constraint is declared.
\<close>

definition outbox_columns :: "string list" where
  "outbox_columns = [''request_time'', ''toaddr'', ''template_name'', ''template_vars_json'',
     ''last_error'', ''retry_count'', ''sent_time'']"

definition column_default :: "string \<Rightarrow> string \<Rightarrow> sqlval" where
  "column_default now c =
     (if c = ''request_time'' then TextV now
      else if c = ''retry_count'' then IntV 0
      else Null)"

text \<open>
  Modelled from the spec: the key that the store assigns to a row inserted without one,
  as SQLite does for an integer primary key: one more than the largest key in the table,
  and 1 in an empty table.
\<close>

definition next_rowid :: "store \<Rightarrow> int" where
  "next_rowid st = (case map rid st of [] \<Rightarrow> 1 | x # xs \<Rightarrow> fold max xs x + 1)"

text \<open>
  The order of SQLite on stored values, as \<^verbatim>\<open>ORDER BY\<close> uses it: NULL first, then the
  integers by value, then the texts byte by byte.
\<close>

fun sql_key :: "sqlval \<Rightarrow> nat \<times> int \<times> string" where
  "sql_key Null = (0, 0, [])"
| "sql_key (IntV i) = (1, i, [])"
| "sql_key (TextV s) = (2, 0, s)"

text \<open>The comparison \<^verbatim>\<open>a < b\<close> of a \<^verbatim>\<open>WHERE\<close> clause: with NULL on either side the
  result is NULL, which selects no row.\<close>

definition sql_less :: "sqlval \<Rightarrow> sqlval \<Rightarrow> bool" where
  "sql_less a b = (a \<noteq> Null \<and> b \<noteq> Null \<and> sql_key a < sql_key b)"

subsection \<open>Decimal numerals\<close>

text \<open>Decimal digits, \<^verbatim>\<open>str\<close> of an integer, and the number that a text of digits denotes.\<close>

definition is_digit :: "char \<Rightarrow> bool" where
  "is_digit c = (CHR ''0'' \<le> c \<and> c \<le> CHR ''9'')"

definition digit_char :: "nat \<Rightarrow> char" where
  "digit_char d = char_of (of_char CHR ''0'' + d)"

definition digit_val :: "char \<Rightarrow> nat" where
  "digit_val c = of_char c - of_char CHR ''0''"

function show_nat :: "nat \<Rightarrow> string" where
  "show_nat n = (if n < 10 then [digit_char n] else show_nat (n div 10) @ [digit_char (n mod 10)])"
  by pat_completeness auto
termination
  by (relation "measure id") auto

declare show_nat.simps [simp del]

definition show_int :: "int \<Rightarrow> string" where
  "show_int i = (if i < 0 then CHR ''-'' # show_nat (nat (- i)) else show_nat (nat i))"

definition nat_of_digits :: "string \<Rightarrow> nat" where
  "nat_of_digits ds = foldl (\<lambda>n c. 10 * n + digit_val c) 0 ds"

subsection \<open>What the store does to a value\<close>

text \<open>
  The \<^verbatim>\<open>sqlite3\<close> module binds an integer only if it fits the 64 bits of an SQLite
  INTEGER; binding a larger one raises \<^verbatim>\<open>OverflowError\<close>.
\<close>

definition bindable :: "sqlval \<Rightarrow> bool" where
  "bindable v = (case v of IntV i \<Rightarrow> - (2 ^ 63) \<le> i \<and> i < 2 ^ 63 | _ \<Rightarrow> True)"

definition bindable_id :: "int option \<Rightarrow> bool" where
  "bindable_id i = (case i of None \<Rightarrow> True | Some k \<Rightarrow> bindable (IntV k))"

text \<open>
  A text that SQLite reads as an integer: digits, after an optional sign, between optional
  white space.
\<close>

definition is_space :: "char \<Rightarrow> bool" where
  "is_space c =
     (c = CHR '' '' \<or> c = CHR 0x09 \<or> c = CHR 0x0A \<or> c = CHR 0x0B \<or> c = CHR 0x0C \<or> c = CHR 0x0D)"

definition integer_literal :: "string \<Rightarrow> int option" where
  "integer_literal s =
     (let t = rev (dropWhile is_space (rev (dropWhile is_space s)));
          neg = (t \<noteq> [] \<and> hd t = CHR ''-'');
          ds = (if t \<noteq> [] \<and> (hd t = CHR ''-'' \<or> hd t = CHR ''+'') then tl t else t)
      in if ds \<noteq> [] \<and> list_all is_digit ds
         then Some (if neg then - int (nat_of_digits ds) else int (nat_of_digits ds))
         else None)"

text \<open>
  Modelled from the spec: the types of the columns of \<^verbatim>\<open>outbox\<close>. In Section 6 of the
  specification \<^verbatim>\<open>retry_count\<close> is the counter, an integer column, and the other
  columns hold texts. SQLite converts a value of the other class when it is written: an
  integer written to a text column becomes its decimal text, and a text written to the
  integer column becomes the integer it denotes. REAL is not among the classes of
  \<open>sqlval\<close>: a text that denotes a number with a fraction or an exponent, or an integer
  beyond 64 bits, is left as it is here.
\<close>

definition integer_column :: "string \<Rightarrow> bool" where
  "integer_column c = (c = ''retry_count'')"

definition stored :: "string \<Rightarrow> sqlval \<Rightarrow> sqlval" where
  "stored c v =
     (if integer_column c then
        (case v of
           TextV s \<Rightarrow>
             (case integer_literal s of
                None \<Rightarrow> v
              | Some i \<Rightarrow> if bindable (IntV i) then IntV i else v)
         | _ \<Rightarrow> v)
      else (case v of IntV i \<Rightarrow> TextV (show_int i) | _ \<Rightarrow> v))"

subsection \<open>Exceptions\<close>

datatype error =
    AttributeError string   \<comment> \<open>\<^verbatim>\<open>AttributeError("No property '%s'" % name)\<close>\<close>
  | CannotSave string       \<comment> \<open>\<^verbatim>\<open>Exception("Cannot save ... - missing settings: '%s'.")\<close>, with the names joined\<close>
  | CannotRemove            \<comment> \<open>\<^verbatim>\<open>Exception("Cannot remove ... - not in database!")\<close>\<close>
  | TypeError               \<comment> \<open>an operand of the wrong Python type\<close>
  | OverflowError           \<comment> \<open>\<^verbatim>\<open>OverflowError\<close>: an integer too large to bind\<close>
  | IntegrityError          \<comment> \<open>\<^verbatim>\<open>sqlite3.IntegrityError\<close>: the primary key exists already\<close>
  | OperationalError        \<comment> \<open>\<^verbatim>\<open>sqlite3.OperationalError\<close>: the statement names no column of the table\<close>
  | JSONDecodeError         \<comment> \<open>\<^verbatim>\<open>json.JSONDecodeError\<close>: the text is no JSON document\<close>

subsection \<open>The instance\<close>

text \<open>
  The fields \<^verbatim>\<open>_id\<close>, \<^verbatim>\<open>_props\<close> and \<^verbatim>\<open>_in_db\<close> of an instance. The dictionary
  \<^verbatim>\<open>_props\<close> is an association list in insertion order, updated as a Python
  dictionary is; \<open>attrs\<close> holds the ordinary attributes that
  \<^verbatim>\<open>object.__setattr__\<close> creates for undeclared names.
\<close>

record pending =
  ident :: "int option"
  props :: "(string \<times> sqlval) list"
  in_db :: bool
  attrs :: "(string \<times> sqlval) list"

definition db_required_props :: "string list" where
  "db_required_props = [''toaddr'', ''template_name'', ''template_vars_json'']"

definition db_optional_props :: "string list" where
  "db_optional_props = [''last_error'', ''retry_count'', ''sent_time'']"

definition db_auto_props :: "string list" where
  "db_auto_props = [''request_time'']"

definition db_props :: "string list" where
  "db_props = db_required_props @ db_optional_props"

text \<open>\<^verbatim>\<open>self._props.get(name, None)\<close> and \<^verbatim>\<open>name in self._props\<close>.\<close>

definition props_get :: "pending \<Rightarrow> string \<Rightarrow> sqlval" where
  "props_get e name = (case map_of (props e) name of None \<Rightarrow> Null | Some v \<Rightarrow> v)"

definition has_prop :: "pending \<Rightarrow> string \<Rightarrow> bool" where
  "has_prop e name = (name \<in> set (map fst (props e)))"

text \<open>\<^verbatim>\<open>__getattr__\<close>, which Python calls for a name that is no field and no class attribute.\<close>

definition getattr :: "pending \<Rightarrow> string \<Rightarrow> error + sqlval" where
  "getattr e name =
     (if name \<notin> set db_props then Inl (AttributeError name)
      else Inr (props_get e name))"

text \<open>
  \<^verbatim>\<open>__setattr__\<close>: a declared name is stored in \<^verbatim>\<open>_props\<close>; any other name goes to
  \<^verbatim>\<open>object.__setattr__\<close> and becomes an ordinary attribute of the object, which
  \<^verbatim>\<open>_props\<close> does not see. (Assignments to the fields above and to
  \<^verbatim>\<open>template_vars\<close> are the record updates and the setter below.)
\<close>

definition setattr :: "pending \<Rightarrow> string \<Rightarrow> sqlval \<Rightarrow> pending" where
  "setattr e name v =
     (if name \<in> set db_props then e\<lparr>props := AList.update name v (props e)\<rparr>
      else e\<lparr>attrs := AList.update name v (attrs e)\<rparr>)"

subsection \<open>Statements\<close>

text \<open>\<^verbatim>\<open>_fetchone\<close> of \<^verbatim>\<open>SELECT ... FROM outbox WHERE id=?\<close>: the row of that key.
  (A key beyond 64 bits, which the module refuses to bind, is the key of no row.)\<close>

definition fetchone :: "int option \<Rightarrow> store \<Rightarrow> row option" where
  "fetchone i st = (case i of None \<Rightarrow> None | Some k \<Rightarrow> find (\<lambda>r. rid r = k) st)"

text \<open>The columns of a row after the assignments of a statement: an assigned column holds
  what the store makes of the value bound to it.\<close>

definition assign :: "(string \<times> sqlval) list \<Rightarrow> (string \<Rightarrow> sqlval) \<Rightarrow> string \<Rightarrow> sqlval" where
  "assign ps old c = (case map_of ps c of None \<Rightarrow> old c | Some v \<Rightarrow> stored c v)"

text \<open>
  \<^verbatim>\<open>_exec\<close> of \<^verbatim>\<open>UPDATE outbox SET k1=?, ... WHERE id=?\<close>, committed. The names
  \<open>k1\<close>, ... are the keys of \<^verbatim>\<open>_props\<close>; a name that is not one of the columns above
  makes the statement fail, and so does a parameter that cannot be bound. A statement that
  matches no row changes nothing and succeeds.
\<close>

definition exec_update :: "(string \<times> sqlval) list \<Rightarrow> int option \<Rightarrow> store \<Rightarrow> error + store" where
  "exec_update ps i st =
     (if \<not> list_all (\<lambda>k. k \<in> set outbox_columns) (map fst ps) then Inl OperationalError
      else if \<not> (list_all bindable (map snd ps) \<and> bindable_id i) then Inl OverflowError
      else Inr (map (\<lambda>r. if Some (rid r) = i then r\<lparr>cols := assign ps (cols r)\<rparr> else r) st))"

text \<open>
  \<^verbatim>\<open>_exec\<close> of \<^verbatim>\<open>INSERT INTO outbox (id, k1, ...) VALUES (?, ?, ...)\<close>, committed; the
  result is \<^verbatim>\<open>cur.lastrowid\<close>. A key that is in the table already violates the primary
  key; a column that is not named takes its default, and the store's clock reads \<open>now\<close>.
\<close>

definition exec_insert :: "string \<Rightarrow> int option \<Rightarrow> (string \<times> sqlval) list \<Rightarrow> store \<Rightarrow> error + (int \<times> store)" where
  "exec_insert now i ps st =
     (if \<not> list_all (\<lambda>k. k \<in> set outbox_columns) (map fst ps) then Inl OperationalError
      else if \<not> (list_all bindable (map snd ps) \<and> bindable_id i) then Inl OverflowError
      else case i of
        Some k \<Rightarrow>
          (if k \<in> set (map rid st) then Inl IntegrityError
           else Inr (k, st @ [\<lparr>rid = k, cols = assign ps (column_default now)\<rparr>]))
      | None \<Rightarrow>
          (let k = next_rowid st
           in Inr (k, st @ [\<lparr>rid = k, cols = assign ps (column_default now)\<rparr>])))"

text \<open>\<^verbatim>\<open>_exec\<close> of \<^verbatim>\<open>DELETE FROM outbox WHERE id=?\<close>, committed.\<close>

definition exec_delete :: "int option \<Rightarrow> store \<Rightarrow> store" where
  "exec_delete i st = filter (\<lambda>r. Some (rid r) \<noteq> i) st"

subsection \<open>KeyedSqliteThing\<close>

text \<open>\<^verbatim>\<open>_load\<close>: the loop over the selected columns keeps the values that are not NULL.\<close>

definition load_row :: "row \<Rightarrow> (string \<times> sqlval) list \<Rightarrow> (string \<times> sqlval) list" where
  "load_row r ps =
     fold (\<lambda>p acc. if cols r p \<noteq> Null then AList.update p (cols r p) acc else acc)
       (db_props @ db_auto_props) ps"

definition load :: "pending \<Rightarrow> store \<Rightarrow> pending" where
  "load e st =
     (case fetchone (ident e) st of
        None \<Rightarrow> e
      | Some r \<Rightarrow> e\<lparr>props := load_row r (props e), in_db := True\<rparr>)"

text \<open>\<^verbatim>\<open>PendingSend(connector, id)\<close>: the constructors of the three classes.\<close>

definition PendingSend :: "store \<Rightarrow> int option \<Rightarrow> pending" where
  "PendingSend st i =
     (let e = \<lparr>ident = i, props = [], in_db = False, attrs = []\<rparr>
      in if i \<noteq> None then load e st else e)"

definition missing_props :: "pending \<Rightarrow> string list" where
  "missing_props e = filter (\<lambda>name. \<not> has_prop e name) db_required_props"

text \<open>\<^verbatim>\<open>', '.join(names)\<close>.\<close>

fun join :: "string \<Rightarrow> string list \<Rightarrow> string" where
  "join sep [] = []"
| "join sep [x] = x"
| "join sep (x # y # ys) = x @ sep @ join sep (y # ys)"

text \<open>
  \<^verbatim>\<open>delete\<close>. The message of the exception for an instance that is not in the database
  is built from \<^verbatim>\<open>self.self._id\<close>: reading \<^verbatim>\<open>self.self\<close> goes through
  \<^verbatim>\<open>__getattr__\<close> before the exception is constructed.
\<close>

definition delete :: "pending \<Rightarrow> store \<Rightarrow> error option \<times> pending \<times> store" where
  "delete e st =
     (if \<not> in_db e then
        (case getattr e ''self'' of
           Inl err \<Rightarrow> (Some err, e, st)
         | Inr _ \<Rightarrow> (Some CannotRemove, e, st))
      else (None, e\<lparr>in_db := False\<rparr>, exec_delete (ident e) st))"

text \<open>\<^verbatim>\<open>save\<close>; \<open>now\<close> is the store's clock at the statement.\<close>

definition save :: "string \<Rightarrow> pending \<Rightarrow> store \<Rightarrow> error option \<times> pending \<times> store" where
  "save now e st =
     (let missing = missing_props e in
      if length missing > 0 then (Some (CannotSave (join '', '' missing)), e, st)
      else if in_db e then
        (case exec_update (props e) (ident e) st of
           Inl err \<Rightarrow> (Some err, e, st)
         | Inr st' \<Rightarrow> (None, e, st'))
      else
        (case exec_insert now (ident e) (props e) st of
           Inl err \<Rightarrow> (Some err, e, st)
         | Inr (lastid, st') \<Rightarrow>
             (None, e\<lparr>ident := (if ident e = None then Some lastid else ident e), in_db := True\<rparr>, st')))"

subsection \<open>AgedKeyedSqliteThing\<close>

text \<open>
  An instant is carried as the text that \<^verbatim>\<open>strftime('%Y-%m-%d %H:%M:%S')\<close> gives for
  it, so \<^verbatim>\<open>strptime\<close> of a text is that text; a value that is no \<^verbatim>\<open>str\<close> is a
  \<^verbatim>\<open>TypeError\<close>.
\<close>

definition strptime :: "sqlval \<Rightarrow> error + string" where
  "strptime v = (case v of TextV s \<Rightarrow> Inr s | _ \<Rightarrow> Inl TypeError)"

definition get_time_property :: "pending \<Rightarrow> string \<Rightarrow> error + string option" where
  "get_time_property e name =
     (if \<not> has_prop e name then Inr None
      else case strptime (props_get e name) of
             Inl err \<Rightarrow> Inl err
           | Inr dt \<Rightarrow> Inr (Some dt))"

definition set_time_property :: "pending \<Rightarrow> string \<Rightarrow> string \<Rightarrow> pending" where
  "set_time_property e name dt = setattr e name (TextV dt)"

subsection \<open>PendingSend\<close>

definition retry_count :: "pending \<Rightarrow> sqlval" where
  "retry_count e = (case map_of (props e) ''retry_count'' of None \<Rightarrow> IntV 0 | Some v \<Rightarrow> v)"

definition sent_time :: "pending \<Rightarrow> error + string option" where
  "sent_time e = get_time_property e ''sent_time''"

definition is_sent :: "pending \<Rightarrow> error + bool" where
  "is_sent e = (case sent_time e of Inl err \<Rightarrow> Inl err | Inr t \<Rightarrow> Inr (t \<noteq> None))"

text \<open>\<^verbatim>\<open>mark_sent\<close>; \<open>now\<close> is \<^verbatim>\<open>datetime.now()\<close>. The store is not touched.\<close>

definition mark_sent :: "string \<Rightarrow> pending \<Rightarrow> store \<Rightarrow> error option \<times> pending \<times> store" where
  "mark_sent now e st = (None, set_time_property e ''sent_time'' now, st)"

text \<open>\<^verbatim>\<open>retried\<close>: \<^verbatim>\<open>self.retry_count += 1\<close> reads the property, adds one to an
  \<^verbatim>\<open>int\<close> and assigns through \<^verbatim>\<open>__setattr__\<close>. The store is not touched.\<close>

definition retried :: "pending \<Rightarrow> store \<Rightarrow> error option \<times> pending \<times> store" where
  "retried e st =
     (case retry_count e of
        IntV n \<Rightarrow> (None, setattr e ''retry_count'' (IntV (n + 1)), st)
      | _ \<Rightarrow> (Some TypeError, e, st))"

text \<open>
  \<^verbatim>\<open>Unsent\<close>: the rows of
  \<^verbatim>\<open>SELECT id FROM outbox WHERE retry_count<? AND sent_time is null ORDER BY request_time ASC LIMIT ?\<close>
  and an instance loaded for each. A negative \<^verbatim>\<open>LIMIT\<close> is no limit in SQLite. The store
  is the same at the query and at every load.
\<close>

definition sql_limit :: "int \<Rightarrow> 'a list \<Rightarrow> 'a list" where
  "sql_limit n xs = (if n < 0 then xs else take (nat n) xs)"

text \<open>The clause \<^verbatim>\<open>WHERE retry_count<? AND sent_time is null\<close> on a row.\<close>

definition pending_row :: "int \<Rightarrow> row \<Rightarrow> bool" where
  "pending_row max_retry r =
     (sql_less (cols r ''retry_count'') (IntV max_retry) \<and> cols r ''sent_time'' = Null)"

definition unsent_rows :: "store \<Rightarrow> int \<Rightarrow> int \<Rightarrow> row list" where
  "unsent_rows st max_retry max_results =
     sql_limit max_results
       (sort_key (\<lambda>r. sql_key (cols r ''request_time'')) (filter (pending_row max_retry) st))"

definition Unsent :: "store \<Rightarrow> int \<Rightarrow> int \<Rightarrow> pending list" where
  "Unsent st max_retry max_results =
     map (\<lambda>r. PendingSend st (Some (rid r))) (unsent_rows st max_retry max_results)"

subsection \<open>The json module\<close>

text \<open>
  \<^verbatim>\<open>json.dumps\<close> and \<^verbatim>\<open>json.loads\<close> of the Python library, with their default
  arguments, on the values JSON represents: \<^verbatim>\<open>None\<close>, booleans, integers, floats,
  strings, lists and dictionaries with string keys (in insertion order). A string holds
  the code points below 256. A float is a value of the type \<open>'f\<close>; its \<^verbatim>\<open>repr\<close> and the
  conversion \<^verbatim>\<open>float\<close> of a number text are the parameters \<open>rf\<close> and \<open>pf\<close> of the two
  functions, and the tokens \<^verbatim>\<open>NaN\<close> and \<^verbatim>\<open>Infinity\<close> are not read.
\<close>

datatype 'f json =
    JNull | JBool bool | JInt int | JFloat 'f | JStr string
  | JList "'f json list" | JDict "(string \<times> 'f json) list"

abbreviation dq :: char where "dq \<equiv> CHR 0x22"

abbreviation bsl :: char where "bsl \<equiv> CHR 0x5C"

text \<open>
  The encoder of strings with \<^verbatim>\<open>ensure_ascii\<close>: the quote, the backslash and every
  character outside the range from the space to the tilde is escaped.
\<close>

definition hex_char :: "nat \<Rightarrow> char" where
  "hex_char d =
     (if d < 10 then char_of (of_char CHR ''0'' + d) else char_of (of_char CHR ''a'' + (d - 10)))"

definition escape_char :: "char \<Rightarrow> string" where
  "escape_char c =
     (if c = bsl then [bsl, bsl]
      else if c = dq then [bsl, dq]
      else if c = CHR 0x08 then [bsl, CHR ''b'']
      else if c = CHR 0x0C then [bsl, CHR ''f'']
      else if c = CHR 0x0A then [bsl, CHR ''n'']
      else if c = CHR 0x0D then [bsl, CHR ''r'']
      else if c = CHR 0x09 then [bsl, CHR ''t'']
      else if CHR '' '' \<le> c \<and> c \<le> CHR ''~'' then [c]
      else [bsl, CHR ''u'', CHR ''0'', CHR ''0'',
            hex_char (of_char c div 16), hex_char (of_char c mod 16)])"

definition encode_string :: "string \<Rightarrow> string" where
  "encode_string s = dq # concat (map escape_char s) @ [dq]"

text \<open>\<^verbatim>\<open>json.dumps(value)\<close>, with the separators \<^verbatim>\<open>', '\<close> and \<^verbatim>\<open>': '\<close>.\<close>

fun dumps :: "('f \<Rightarrow> string) \<Rightarrow> 'f json \<Rightarrow> string" where
  "dumps rf JNull = ''null''"
| "dumps rf (JBool b) = (if b then ''true'' else ''false'')"
| "dumps rf (JInt i) = show_int i"
| "dumps rf (JFloat x) = rf x"
| "dumps rf (JStr s) = encode_string s"
| "dumps rf (JList xs) = ''['' @ join '', '' (map (dumps rf) xs) @ '']''"
| "dumps rf (JDict kvs) =
     ''{'' @ join '', '' (map (\<lambda>(k, v). encode_string k @ '': '' @ dumps rf v) kvs) @ ''}''"


text \<open>
  The scanner of strings (in strict mode), entered after the opening quote: it ends at the
  closing quote, decodes the escapes and rejects a control character. An escape
  \<^verbatim>\<open>\uXXXX\<close> of a code point from 256 on is outside the strings of this model.
\<close>

definition hex_val :: "char \<Rightarrow> nat option" where
  "hex_val c =
     (if CHR ''0'' \<le> c \<and> c \<le> CHR ''9'' then Some (of_char c - of_char CHR ''0'')
      else if CHR ''a'' \<le> c \<and> c \<le> CHR ''f'' then Some (of_char c - of_char CHR ''a'' + 10)
      else if CHR ''A'' \<le> c \<and> c \<le> CHR ''F'' then Some (of_char c - of_char CHR ''A'' + 10)
      else None)"

definition hex4 :: "char \<Rightarrow> char \<Rightarrow> char \<Rightarrow> char \<Rightarrow> nat option" where
  "hex4 a b c d =
     (case (hex_val a, hex_val b, hex_val c, hex_val d) of
        (Some x, Some y, Some z, Some w) \<Rightarrow> Some (((x * 16 + y) * 16 + z) * 16 + w)
      | _ \<Rightarrow> None)"

definition backslash :: "char \<Rightarrow> char option" where
  "backslash e =
     (if e = dq then Some dq
      else if e = bsl then Some bsl
      else if e = CHR ''/'' then Some CHR ''/''
      else if e = CHR ''b'' then Some (CHR 0x08)
      else if e = CHR ''f'' then Some (CHR 0x0C)
      else if e = CHR ''n'' then Some (CHR 0x0A)
      else if e = CHR ''r'' then Some (CHR 0x0D)
      else if e = CHR ''t'' then Some (CHR 0x09)
      else None)"

fun scanstring :: "string \<Rightarrow> string \<Rightarrow> (string \<times> string) option"
  and scan_escape :: "string \<Rightarrow> string \<Rightarrow> (string \<times> string) option"
  and scan_unicode :: "string \<Rightarrow> string \<Rightarrow> (string \<times> string) option"
where
  "scanstring acc [] = None"
| "scanstring acc (c # cs) =
     (if c = dq then Some (acc, cs)
      else if c = bsl then scan_escape acc cs
      else if c < CHR '' '' then None
      else scanstring (acc @ [c]) cs)"
| "scan_escape acc [] = None"
| "scan_escape acc (e # cs) =
     (if e = CHR ''u'' then scan_unicode acc cs
      else case backslash e of None \<Rightarrow> None | Some c \<Rightarrow> scanstring (acc @ [c]) cs)"
| "scan_unicode acc (a # b # c # d # cs) =
     (case hex4 a b c d of
        None \<Rightarrow> None
      | Some n \<Rightarrow> if n < 256 then scanstring (acc @ [char_of n]) cs else None)"
| "scan_unicode acc _ = None"

















definition delimited :: "string \<Rightarrow> bool" where
  "delimited rest =
     (case rest of [] \<Rightarrow> True | c # _ \<Rightarrow> c = CHR '','' \<or> c = CHR '']'' \<or> c = CHR ''}'')"



subsection \<open>The format of the timestamps\<close>

text \<open>
  The texts of the form \<^verbatim>\<open>YYYY-MM-DD HH:MM:SS\<close>, which \<^verbatim>\<open>strftime\<close> and the store's
  clock produce, and the instant of such a text as the number \<^verbatim>\<open>YYYYMMDDHHMMSS\<close>, which
  grows with the instant.
\<close>

definition timestamp :: "string \<Rightarrow> bool" where
  "timestamp t =
     (case t of
        [y1, y2, y3, y4, s1, m1, m2, s2, d1, d2, s3, h1, h2, s4, n1, n2, s5, c1, c2] \<Rightarrow>
          s1 = CHR ''-'' \<and> s2 = CHR ''-'' \<and> s3 = CHR '' '' \<and> s4 = CHR '':'' \<and> s5 = CHR '':''
          \<and> list_all is_digit [y1, y2, y3, y4, m1, m2, d1, d2, h1, h2, n1, n2, c1, c2]
      | _ \<Rightarrow> False)"

definition instant :: "string \<Rightarrow> nat" where
  "instant t = nat_of_digits (filter is_digit t)"

subsection \<open>The template variables of PendingSend\<close>


definition set_template_vars :: "('f \<Rightarrow> string) \<Rightarrow> pending \<Rightarrow> 'f json \<Rightarrow> pending" where
  "set_template_vars rf e v =
     e\<lparr>props := AList.update ''template_vars_json'' (TextV (dumps rf v)) (props e)\<rparr>"

text \<open>The invariant of the instance: every key of \<^verbatim>\<open>_props\<close> is a declared property or
  the automatic one.\<close>

definition props_declared :: "pending \<Rightarrow> bool" where
  "props_declared e =
     (set (map fst (props e)) \<subseteq> set (db_required_props @ db_optional_props @ db_auto_props))"



text \<open>\<^verbatim>\<open>retried\<close> called \<open>k\<close> times in a row; an exception ends the sequence.\<close>

fun retried_times :: "nat \<Rightarrow> pending \<Rightarrow> store \<Rightarrow> error option \<times> pending \<times> store" where
  "retried_times 0 e st = (None, e, st)"
| "retried_times (Suc k) e st =
     (case retried e st of
        (None, e', st') \<Rightarrow> retried_times k e' st'
      | (Some err, e', st') \<Rightarrow> (Some err, e', st'))"

subsection \<open>Scenarios\<close>

text \<open>Scenario D of the specification: an entry with the address and the template name
  assigned and no template variables.\<close>

definition scenario_d :: pending where
  "scenario_d =
     setattr (setattr (PendingSend [] None) ''toaddr'' (TextV ''ann@example.org''))
       ''template_name'' (TextV ''welcome'')"

text \<open>An entry with the three required properties assigned, the outbox after saving it
  into an empty table, the instance after that save, and a new instance loaded for it.\<close>

definition entry_a :: pending where
  "entry_a =
     setattr (setattr (setattr (PendingSend [] None) ''toaddr'' (TextV ''ann@example.org''))
       ''template_name'' (TextV ''welcome'')) ''template_vars_json'' (TextV ''{}'')"


definition outbox_a :: store where
  "outbox_a = snd (snd (save ''2020-01-01 10:00:00'' entry_a []))"

definition loaded_a :: pending where
  "loaded_a = PendingSend outbox_a (Some 1)"

text \<open>The loaded entry after an error text was assigned and \<^verbatim>\<open>retried\<close> called twice.\<close>

definition failed_a :: pending where
  "failed_a = setattr loaded_a ''last_error'' (TextV ''timeout'')"

definition retried_twice_a :: pending where
  "retried_twice_a = fst (snd (retried_times 2 failed_a outbox_a))"



definition entry_big :: pending where
  "entry_big = setattr entry_a ''retry_count'' (IntV (2 ^ 63))"

definition entry_k :: pending where
  "entry_k =
     setattr (setattr (setattr (PendingSend [] (Some 1)) ''toaddr'' (TextV ''ann@example.org''))
       ''template_name'' (TextV ''welcome'')) ''template_vars_json'' (TextV ''{}'')"

text \<open>The loaded entry after \<^verbatim>\<open>mark_sent\<close>.\<close>

definition sent_a :: pending where
  "sent_a = fst (snd (mark_sent ''2020-01-01 10:06:00'' loaded_a outbox_a))"

text \<open>A new entry as Scenario A enqueues it: no key, not in the database, the required
  properties assigned, and besides them at most an error text; its values can be bound.\<close>

definition draft :: "pending \<Rightarrow> bool" where
  "draft e =
     (ident e = None \<and> \<not> in_db e \<and> missing_props e = []
      \<and> list_all (\<lambda>k. k \<in> set db_required_props \<or> k = ''last_error'') (map fst (props e))
      \<and> list_all bindable (map snd (props e)))"

text \<open>The row that \<^verbatim>\<open>save\<close> inserts for a new entry.\<close>

definition new_row :: "string \<Rightarrow> pending \<Rightarrow> store \<Rightarrow> row" where
  "new_row now e st = \<lparr>rid = next_rowid st, cols = assign (props e) (column_default now)\<rparr>"

text \<open>Two more entries, and the outbox after the three are saved one second apart.\<close>

definition entry_b :: pending where
  "entry_b = setattr entry_a ''toaddr'' (TextV ''bob@example.org'')"

definition entry_c :: pending where
  "entry_c = setattr entry_a ''toaddr'' (TextV ''cy@example.org'')"

definition outbox_abc :: store where
  "outbox_abc =
     snd (snd (save ''2020-01-01 10:00:02'' entry_c
       (snd (snd (save ''2020-01-01 10:00:01'' entry_b outbox_a)))))"

text \<open>
  An outbox of five rows whose request times are not in the order of their keys: the
  second has used up five retries and the third is sent.
\<close>

definition queued :: "int \<Rightarrow> int \<Rightarrow> sqlval \<Rightarrow> string \<Rightarrow> row" where
  "queued i n s t =
     \<lparr>rid = i,
      cols = (column_default t)(''toaddr'' := TextV ''ann@example.org'',
               ''template_name'' := TextV ''welcome'', ''template_vars_json'' := TextV ''{}'',
               ''retry_count'' := IntV n, ''sent_time'' := s)\<rparr>"

definition outbox_w :: store where
  "outbox_w =
     [queued 1 0 Null ''2020-01-01 10:00:03'',
      queued 2 5 Null ''2020-01-01 10:00:01'',
      queued 3 1 (TextV ''2020-01-01 10:07:00'') ''2020-01-01 10:00:02'',
      queued 4 4 Null ''2020-01-01 10:00:00'',
      queued 5 0 Null ''2020-01-01 10:00:02'']"

text \<open>
  A type of two floats for the scenarios, with its \<^verbatim>\<open>repr\<close> and the conversion back,
  the value of Scenario E, and the entry of the scenarios with that value assigned.
\<close>

definition toy_repr :: "bool \<Rightarrow> string" where
  "toy_repr x = (if x then ''0.5'' else ''-1.5e+20'')"


definition scenario_e :: "bool json" where
  "scenario_e = JDict [(''name'', JStr ''Ann''), (''count'', JInt 3)]"


section \<open>Properties\<close>

subsection \<open>Saving an incomplete record\<close>

lemma sublist_join:
  "x \<in> set xs \<Longrightarrow> sublist x (join sep xs)"
proof (induction sep xs rule: join.induct)
  case (1 sep)
  then show ?case by simp
next
  case (2 sep y)
  then show ?case by simp
next
  case (3 sep a b bs)
  show ?case
  proof (cases "x = a")
    case True
    then show ?thesis by (simp add: sublist_append_rightI)
  next
    case False
    with 3 have "sublist x (join sep (b # bs))" by simp
    then obtain ps ss where "join sep (b # bs) = ps @ x @ ss"
      by (auto simp: sublist_def)
    then have "a @ sep @ join sep (b # bs) = (a @ sep @ ps) @ x @ ss" by simp
    then have "sublist x (a @ sep @ join sep (b # bs))"
      unfolding sublist_def by blast
    then show ?thesis by simp
  qed
qed

text \<open>
  C5. When a required property is absent from \<^verbatim>\<open>_props\<close>, \<^verbatim>\<open>save\<close> raises the
  exception whose message joins the names of the missing properties, so every missing name
  occurs in it; the store and the instance, with its flag \<^verbatim>\<open>_in_db\<close>, are as before.
\<close>

theorem save_missing_required:
  assumes "\<exists>name \<in> set db_required_props. \<not> has_prop e name"
  shows "save now e st = (Some (CannotSave (join '', '' (missing_props e))), e, st)
       \<and> (\<forall>name \<in> set db_required_props.
            \<not> has_prop e name \<longrightarrow> sublist name (join '', '' (missing_props e)))"
proof
  from assms have "missing_props e \<noteq> []"
    by (auto simp: missing_props_def filter_empty_conv)
  then show "save now e st = (Some (CannotSave (join '', '' (missing_props e))), e, st)"
    by (simp add: save_def Let_def)
  show "\<forall>name \<in> set db_required_props.
      \<not> has_prop e name \<longrightarrow> sublist name (join '', '' (missing_props e))"
    by (intro ballI impI sublist_join) (simp add: missing_props_def)
qed

theorem save_missing_required_witness:
  "save ''2020-01-01 00:00:00'' scenario_d [] =
     (Some (CannotSave ''template_vars_json''), scenario_d, [])
   \<and> sublist ''template_vars_json'' ''template_vars_json''"
proof -
  have m: "missing_props scenario_d = [''template_vars_json'']"
    by (simp add: scenario_d_def missing_props_def has_prop_def setattr_def PendingSend_def
        db_props_def db_required_props_def db_optional_props_def)
  have h: "\<exists>name \<in> set db_required_props. \<not> has_prop scenario_d name"
    by (simp add: scenario_d_def has_prop_def setattr_def PendingSend_def
        db_props_def db_required_props_def db_optional_props_def)
  from save_missing_required [OF h, of "''2020-01-01 00:00:00''" "[]"] show ?thesis
    by (simp add: m)
qed

subsection \<open>Deleting\<close>

text \<open>
  C6. On a new instance, which is not in the database, \<^verbatim>\<open>delete\<close> raises the
  \<^verbatim>\<open>AttributeError\<close> of \<^verbatim>\<open>__getattr__\<close> for the name \<^verbatim>\<open>self\<close>, not the exception
  that says the record is not in the database; nothing is changed.
\<close>

theorem delete_unsaved_raises_attribute_error:
  "delete (PendingSend [] None) [] = (Some (AttributeError ''self''), PendingSend [] None, [])"
  by (simp add: delete_def PendingSend_def getattr_def db_props_def db_required_props_def
      db_optional_props_def)

lemma delete_not_in_db:
  "\<not> in_db e \<Longrightarrow> delete e st = (Some (AttributeError ''self''), e, st)"
  by (simp add: delete_def getattr_def db_props_def db_required_props_def db_optional_props_def)

lemma delete_in_db:
  "in_db e \<Longrightarrow>
   delete e st = (None, e\<lparr>in_db := False\<rparr>, filter (\<lambda>r. Some (rid r) \<noteq> ident e) st)"
  by (simp add: delete_def exec_delete_def)

subsection \<open>Loading and saving\<close>

lemmas class_defs = db_props_def db_required_props_def db_optional_props_def db_auto_props_def
  outbox_columns_def bindable_def bindable_id_def

lemma declared_columns: "set (db_props @ db_auto_props) = set outbox_columns"
  by (auto simp: db_props_def db_auto_props_def db_required_props_def db_optional_props_def
      outbox_columns_def)

lemma map_of_fold_load:
  "map_of (fold (\<lambda>p acc. if cols r p \<noteq> Null then AList.update p (cols r p) acc else acc) ns ps) c =
     (if c \<in> set ns \<and> cols r c \<noteq> Null then Some (cols r c) else map_of ps c)"
  by (induction ns arbitrary: ps) (auto simp: update_conv')

lemma map_of_load_row:
  "map_of (load_row r ps) c =
     (if c \<in> set outbox_columns \<and> cols r c \<noteq> Null then Some (cols r c) else map_of ps c)"
  unfolding load_row_def map_of_fold_load declared_columns ..

lemma keys_load_row: "fst ` set (load_row r ps) \<subseteq> fst ` set ps \<union> set outbox_columns"
proof
  fix c assume "c \<in> fst ` set (load_row r ps)"
  then have "map_of (load_row r ps) c \<noteq> None"
    by (simp add: map_of_eq_None_iff)
  then have "c \<in> set outbox_columns \<or> map_of ps c \<noteq> None"
    by (simp add: map_of_load_row split: if_splits)
  then show "c \<in> fst ` set ps \<union> set outbox_columns"
    by (auto simp: map_of_eq_None_iff)
qed

lemma has_prop_map_of: "has_prop e name \<longleftrightarrow> map_of (props e) name \<noteq> None"
  by (simp add: has_prop_def map_of_eq_None_iff)

text \<open>What a fresh instance holds after loading the row r.\<close>

lemma PendingSend_found:
  assumes "find (\<lambda>r. rid r = i) st = Some r"
  shows "ident (PendingSend st (Some i)) = Some i"
    and "in_db (PendingSend st (Some i))"
    and "map_of (props (PendingSend st (Some i))) c =
          (if c \<in> set outbox_columns \<and> cols r c \<noteq> Null then Some (cols r c) else None)"
  using assms by (simp_all add: PendingSend_def load_def fetchone_def map_of_load_row)

lemma PendingSend_not_found:
  assumes "find (\<lambda>r. rid r = i) st = None"
  shows "PendingSend st (Some i) = \<lparr>ident = Some i, props = [], in_db = False, attrs = []\<rparr>"
  using assms by (simp add: PendingSend_def load_def fetchone_def)

lemma props_get_found:
  assumes "find (\<lambda>r. rid r = i) st = Some r" and "c \<in> set outbox_columns"
  shows "props_get (PendingSend st (Some i)) c = cols r c"
  using assms by (simp add: props_get_def PendingSend_found)

lemma find_update:
  "find (\<lambda>r. rid r = i) (map (\<lambda>r. if Some (rid r) = Some i then r\<lparr>cols := f (cols r)\<rparr> else r) st) =
     map_option (\<lambda>r. r\<lparr>cols := f (cols r)\<rparr>) (find (\<lambda>r. rid r = i) st)"
  by (induction st) auto

lemma find_fresh_append:
  "i \<notin> set (map rid st) \<Longrightarrow> rid r = i \<Longrightarrow> find (\<lambda>r. rid r = i) (st @ [r]) = Some r"
  by (induction st) auto

lemma fold_max_ge: "(x::int) \<le> fold max xs x \<and> (\<forall>y \<in> set xs. y \<le> fold max xs x)"
proof (induction xs arbitrary: x)
  case Nil
  then show ?case by simp
next
  case (Cons a xs)
  from Cons [of "max a x"] show ?case by auto
qed

lemma next_rowid_fresh: "next_rowid st \<notin> set (map rid st)"
proof (cases "map rid st")
  case Nil
  then show ?thesis by simp
next
  case (Cons x xs)
  have "\<forall>y \<in> set (x # xs). y < fold max xs x + 1"
    using fold_max_ge [of x xs] by auto
  then show ?thesis unfolding next_rowid_def Cons by auto
qed

lemma assign_key: "map_of ps c = Some v \<Longrightarrow> assign ps old c = stored c v"
  by (simp add: assign_def)

lemma stored_text [simp]:
  "\<not> integer_column c \<Longrightarrow> stored c (TextV s) = TextV s"
  "stored c Null = Null"
  "integer_column c \<Longrightarrow> stored c (IntV i) = IntV i"
  "\<not> integer_column c \<Longrightarrow> stored c (IntV i) = TextV (show_int i)"
  by (simp_all add: stored_def)

lemma integer_column_simps [simp]:
  "integer_column ''retry_count''" "\<not> integer_column ''sent_time''"
  "\<not> integer_column ''toaddr''" "\<not> integer_column ''template_name''"
  "\<not> integer_column ''template_vars_json''" "\<not> integer_column ''last_error''"
  "\<not> integer_column ''request_time''"
  by (simp_all add: integer_column_def)

lemma assign_other: "map_of ps c = None \<Longrightarrow> assign ps old c = old c"
  by (simp add: assign_def)

text \<open>The row that a successful save leaves for the instance's key.\<close>

lemma save_row:
  assumes s: "save now e st = (None, e', st')"
    and coh: "in_db e \<longrightarrow> (\<exists>i. ident e = Some i \<and> i \<in> set (map rid st))"
  shows "\<exists>i r. ident e' = Some i \<and> in_db e' \<and> props e' = props e
           \<and> find (\<lambda>r. rid r = i) st' = Some r
           \<and> set (map fst (props e)) \<subseteq> set outbox_columns
           \<and> (\<forall>c v. map_of (props e) c = Some v \<longrightarrow> cols r c = stored c v)
           \<and> (\<not> in_db e \<longrightarrow> (\<forall>c. map_of (props e) c = None \<longrightarrow> cols r c = column_default now c))"
proof (cases "in_db e")
  case True
  with coh obtain i where i: "ident e = Some i" "i \<in> set (map rid st)" by blast
  from s True have m: "missing_props e = []"
    by (auto simp: save_def Let_def split: if_splits)
  from s True m obtain u: "exec_update (props e) (ident e) st = Inr st'" and e': "e' = e"
    by (auto simp: save_def split: sum.splits)
  from u have k: "list_all (\<lambda>k. k \<in> set outbox_columns) (map fst (props e))"
    and st': "st' = map (\<lambda>r. if Some (rid r) = Some i then r\<lparr>cols := assign (props e) (cols r)\<rparr> else r) st"
    by (auto simp: exec_update_def i split: if_splits)
  from i(2) obtain r where r: "find (\<lambda>r. rid r = i) st = Some r"
    by (cases "find (\<lambda>r. rid r = i) st") (auto simp: find_None_iff)
  have "find (\<lambda>r. rid r = i) st' = Some (r\<lparr>cols := assign (props e) (cols r)\<rparr>)"
    unfolding st' find_update r by simp
  with k e' i True show ?thesis
    by (auto simp: list_all_iff assign_key)
next
  case False
  from s False have m: "missing_props e = []"
    by (auto simp: save_def Let_def split: if_splits)
  from s False m obtain k where
    u: "exec_insert now (ident e) (props e) st = Inr (k, st')"
    and e': "e' = e\<lparr>ident := (if ident e = None then Some k else ident e), in_db := True\<rparr>"
    by (auto simp: save_def split: sum.splits prod.splits)
  from u have ks: "list_all (\<lambda>k. k \<in> set outbox_columns) (map fst (props e))"
    by (auto simp: exec_insert_def split: if_splits)
  from u have st': "st' = st @ [\<lparr>rid = k, cols = assign (props e) (column_default now)\<rparr>]"
    and fresh: "k \<notin> set (map rid st)" and id': "ident e' = Some k"
    using next_rowid_fresh [of st]
    by (auto simp: exec_insert_def e' Let_def split: if_splits option.splits)
  have "find (\<lambda>r. rid r = k) st' = Some \<lparr>rid = k, cols = assign (props e) (column_default now)\<rparr>"
    unfolding st' using fresh by (intro find_fresh_append) simp_all
  with ks e' id' False show ?thesis
    by (auto simp: list_all_iff assign_key assign_other)
qed

lemma save_then_load:
  assumes s: "save now e st = (None, e', st')"
    and coh: "in_db e \<longrightarrow> (\<exists>i. ident e = Some i \<and> i \<in> set (map rid st))"
    and c: "has_prop e c"
  shows "props_get (PendingSend st' (ident e')) c = stored c (props_get e c)"
proof -
  from save_row [OF s coh] obtain i r where
    i: "ident e' = Some i" and f: "find (\<lambda>r. rid r = i) st' = Some r"
    and k: "set (map fst (props e)) \<subseteq> set outbox_columns"
    and v: "\<forall>c v. map_of (props e) c = Some v \<longrightarrow> cols r c = stored c v"
    by blast
  from c obtain v' where v': "map_of (props e) c = Some v'"
    by (auto simp: has_prop_map_of)
  from c k have "c \<in> set outbox_columns" by (auto simp: has_prop_def)
  with f have "props_get (PendingSend st' (Some i)) c = cols r c"
    by (rule props_get_found)
  with v v' i show ?thesis by (simp add: props_get_def)
qed

subsection \<open>The scenario entries, evaluated\<close>

lemma entry_a_eq:
  "entry_a = \<lparr>ident = None,
      props = [(''toaddr'', TextV ''ann@example.org''), (''template_name'', TextV ''welcome''),
               (''template_vars_json'', TextV ''{}'')],
      in_db = False, attrs = []\<rparr>"
  by (simp add: entry_a_def setattr_def PendingSend_def class_defs)

lemma save_entry_a:
  "save t entry_a [] =
     (None, entry_a\<lparr>ident := Some 1, in_db := True\<rparr>,
      [\<lparr>rid = 1, cols = assign (props entry_a) (column_default t)\<rparr>])"
  by (simp add: entry_a_eq save_def missing_props_def has_prop_def exec_insert_def next_rowid_def
      class_defs)


lemma outbox_a_eq:
  "outbox_a = [\<lparr>rid = 1, cols = assign (props entry_a) (column_default ''2020-01-01 10:00:00'')\<rparr>]"
  by (simp add: outbox_a_def save_entry_a)

lemma loaded_a_eq:
  "loaded_a = \<lparr>ident = Some 1,
      props = [(''toaddr'', TextV ''ann@example.org''), (''template_name'', TextV ''welcome''),
               (''template_vars_json'', TextV ''{}''), (''retry_count'', IntV 0),
               (''request_time'', TextV ''2020-01-01 10:00:00'')],
      in_db = True, attrs = []\<rparr>"
  by (simp add: loaded_a_def outbox_a_eq entry_a_eq PendingSend_def load_def fetchone_def
      load_row_def assign_def column_default_def class_defs)

lemma declared_names:
  "set (db_required_props @ db_optional_props @ db_auto_props) = set outbox_columns"
  "set db_props \<subseteq> set outbox_columns"
  "''template_vars_json'' \<in> set outbox_columns"
  by (auto simp: class_defs)

lemma props_declared_iff: "props_declared e \<longleftrightarrow> fst ` set (props e) \<subseteq> set outbox_columns"
  by (simp add: props_declared_def declared_names(1) del: set_append)









text \<open>Two ways in which \<^verbatim>\<open>save\<close> of a complete record raises: a value that cannot be
  bound, and a key that another instance has inserted since this one was constructed.\<close>

lemma save_overflow_example:
  "fst (save ''2020-01-01 10:00:00'' entry_big []) = Some OverflowError"
  by (simp add: entry_big_def entry_a_eq setattr_def save_def missing_props_def has_prop_def
      exec_insert_def class_defs)

lemma save_duplicate_key_example:
  "\<not> in_db entry_k \<and> ident entry_k = Some 1
   \<and> fst (save ''2020-01-01 10:00:05'' entry_k outbox_a) = Some IntegrityError"
  by (simp add: entry_k_def PendingSend_def load_def fetchone_def setattr_def save_def
      missing_props_def has_prop_def exec_insert_def outbox_a_eq class_defs)

subsection \<open>Retries and completion\<close>

lemma ident_PendingSend: "ident (PendingSend st i) = i"
  by (simp add: PendingSend_def load_def Let_def split: option.splits)

lemma retried_int:
  assumes "retry_count e = IntV n"
  shows "retried e st = (None, setattr e ''retry_count'' (IntV (n + 1)), st)"
  using assms by (simp add: retried_def)

lemma setattr_retry_count:
  "props (setattr e ''retry_count'' v) = AList.update ''retry_count'' v (props e)"
  "ident (setattr e ''retry_count'' v) = ident e"
  "in_db (setattr e ''retry_count'' v) = in_db e"
  by (simp_all add: setattr_def class_defs)

lemma retry_count_setattr: "retry_count (setattr e ''retry_count'' v) = v"
  by (simp add: retry_count_def setattr_retry_count update_conv')

lemma retried_times_int:
  assumes "retry_count e = IntV n"
  shows "\<exists>e'. retried_times k e st = (None, e', st)
      \<and> retry_count e' = IntV (n + int k) \<and> ident e' = ident e \<and> in_db e' = in_db e
      \<and> (0 < k \<or> map_of (props e) ''retry_count'' \<noteq> None
            \<longrightarrow> map_of (props e') ''retry_count'' = Some (IntV (n + int k)))
      \<and> (\<forall>c. c \<noteq> ''retry_count'' \<longrightarrow> map_of (props e') c = map_of (props e) c)"
  using assms
proof (induction k arbitrary: e n)
  case 0
  then show ?case by (auto simp: retry_count_def split: option.splits)
next
  case (Suc k)
  let ?e = "setattr e ''retry_count'' (IntV (n + 1))"
  have r: "retry_count ?e = IntV (n + 1)" by (rule retry_count_setattr)
  have p: "map_of (props ?e) ''retry_count'' \<noteq> None"
    by (simp add: setattr_retry_count update_conv')
  from Suc.IH [OF r] p obtain e' where e': "retried_times k ?e st = (None, e', st)"
    "retry_count e' = IntV (n + 1 + int k)" "ident e' = ident ?e" "in_db e' = in_db ?e"
    "map_of (props e') ''retry_count'' = Some (IntV (n + 1 + int k))"
    "\<forall>c. c \<noteq> ''retry_count'' \<longrightarrow> map_of (props e') c = map_of (props ?e) c"
    by blast
  have "retried_times (Suc k) e st = (None, e', st)"
    using retried_int [OF Suc.prems] e'(1) by simp
  then show ?case using e' by (simp add: setattr_retry_count update_conv' add.assoc)
qed

lemma save_rows_of_key:
  assumes s: "save now e st = (None, e', st')"
  shows "\<forall>r \<in> set st'. Some (rid r) = ident e' \<longrightarrow>
           (\<forall>c v. map_of (props e) c = Some v \<longrightarrow> cols r c = stored c v)"
proof (cases "in_db e")
  case True
  from s True obtain u: "exec_update (props e) (ident e) st = Inr st'" and e': "e' = e"
    by (auto simp: save_def Let_def split: sum.splits if_splits)
  from u have "st' = map (\<lambda>r. if Some (rid r) = ident e then r\<lparr>cols := assign (props e) (cols r)\<rparr> else r) st"
    by (auto simp: exec_update_def split: if_splits)
  then show ?thesis using e' by (auto simp: assign_key)
next
  case False
  from s False obtain k where
    u: "exec_insert now (ident e) (props e) st = Inr (k, st')"
    and e': "e' = e\<lparr>ident := (if ident e = None then Some k else ident e), in_db := True\<rparr>"
    by (auto simp: save_def Let_def split: sum.splits prod.splits if_splits)
  from u have st': "st' = st @ [\<lparr>rid = k, cols = assign (props e) (column_default now)\<rparr>]"
    and fresh: "k \<notin> set (map rid st)" and id': "ident e' = Some k"
    using next_rowid_fresh [of st]
    by (auto simp: exec_insert_def e' Let_def split: if_splits option.splits)
  show ?thesis unfolding st' id' using fresh by (auto simp: assign_key)
qed

lemma set_unsent_rows:
  "set (unsent_rows st m n) \<subseteq> {r \<in> set st. pending_row m r}"
proof -
  have "set (sql_limit n xs) \<subseteq> set xs" for xs :: "row list"
    by (auto simp: sql_limit_def dest: in_set_takeD)
  then show ?thesis unfolding unsent_rows_def by fastforce
qed

lemma is_sent_mark_sent: "is_sent (set_time_property e ''sent_time'' now) = Inr True"
  by (simp add: is_sent_def sent_time_def get_time_property_def set_time_property_def setattr_def
      has_prop_def props_get_def strptime_def class_defs dom_update update_conv')

text \<open>
  C7 (as amended). \<^verbatim>\<open>mark_sent\<close> returns without touching the store and the entry's
  \<^verbatim>\<open>is_sent\<close> is true afterwards; once the entry is then saved, no scan, whatever its
  arguments, yields an entry with its key.
\<close>

theorem mark_sent_then_save_excluded:
  assumes m: "mark_sent now e st = (res, e1, st1)"
    and s: "save now' e1 st1 = (None, e2, st2)"
  shows "res = None \<and> st1 = st \<and> is_sent e1 = Inr True
       \<and> ident e2 \<notin> set (map ident (Unsent st2 max_retry max_results))"
proof -
  from m have e1: "e1 = set_time_property e ''sent_time'' now" and r: "res = None" "st1 = st"
    by (simp_all add: mark_sent_def)
  have v: "map_of (props e1) ''sent_time'' = Some (TextV now)"
    by (simp add: e1 set_time_property_def setattr_def class_defs update_conv')
  have "ident e2 \<noteq> ident x" if "x \<in> set (Unsent st2 max_retry max_results)" for x
  proof -
    from that obtain r where x: "x = PendingSend st2 (Some (rid r))"
      and "r \<in> set (unsent_rows st2 max_retry max_results)"
      by (auto simp: Unsent_def)
    with set_unsent_rows have r: "r \<in> set st2" "cols r ''sent_time'' = Null"
      by (auto simp: pending_row_def)
    show ?thesis
    proof
      assume "ident e2 = ident x"
      then have "Some (rid r) = ident e2" by (simp add: x ident_PendingSend)
      with save_rows_of_key [OF s] r(1) v
      have "cols r ''sent_time'' = stored ''sent_time'' (TextV now)" by blast
      with r(2) show False by simp
    qed
  qed
  with r e1 show ?thesis by (auto simp: is_sent_mark_sent)
qed

lemma retry_count_props_get:
  "props_get e ''retry_count'' = IntV n \<Longrightarrow> retry_count e = IntV n"
  by (simp add: props_get_def retry_count_def split: option.splits)

text \<open>
  C1 (as amended). For an entry whose retry count is the integer \<open>n\<close>, \<open>k\<close> calls of
  \<^verbatim>\<open>retried\<close> return without an exception, leave the store as it was and make the
  entry's count \<open>n + k\<close>. The count reaches the store with the next \<^verbatim>\<open>save\<close>: when
  \<open>k > 0\<close>, the flag \<^verbatim>\<open>_in_db\<close> agrees with the store and \<^verbatim>\<open>save\<close> returns, a new
  instance for the key reads the count \<open>n + k\<close> and the \<^verbatim>\<open>last_error\<close> that was assigned
  before the calls, as the store keeps it: a text or \<^verbatim>\<open>None\<close> as it is.
\<close>

theorem retried_times_count:
  assumes "retry_count e = IntV n"
  shows "fst (retried_times k e st) = None
       \<and> snd (snd (retried_times k e st)) = st
       \<and> retry_count (fst (snd (retried_times k e st))) = IntV (n + int k)
       \<and> (\<forall>now e' st'. 0 < k
            \<longrightarrow> (in_db e \<longrightarrow> (\<exists>i. ident e = Some i \<and> i \<in> set (map rid st)))
            \<longrightarrow> save now (fst (snd (retried_times k e st))) st = (None, e', st')
            \<longrightarrow> retry_count (PendingSend st' (ident e')) = IntV (n + int k)
              \<and> (has_prop e ''last_error''
                   \<longrightarrow> props_get (PendingSend st' (ident e')) ''last_error''
                       = stored ''last_error'' (props_get e ''last_error'')))"
proof -
  from retried_times_int [OF assms, of k st] obtain ek where
    ek: "retried_times k e st = (None, ek, st)" "retry_count ek = IntV (n + int k)"
    "ident ek = ident e" "in_db ek = in_db e"
    "0 < k \<longrightarrow> map_of (props ek) ''retry_count'' = Some (IntV (n + int k))"
    "\<forall>c. c \<noteq> ''retry_count'' \<longrightarrow> map_of (props ek) c = map_of (props e) c"
    by blast
  have "retry_count (PendingSend st' (ident e')) = IntV (n + int k)
      \<and> (has_prop e ''last_error''
           \<longrightarrow> props_get (PendingSend st' (ident e')) ''last_error''
               = stored ''last_error'' (props_get e ''last_error''))"
    if k: "0 < k" and coh: "in_db e \<longrightarrow> (\<exists>i. ident e = Some i \<and> i \<in> set (map rid st))"
      and s: "save now ek st = (None, e', st')" for now e' st'
  proof
    from coh ek have coh': "in_db ek \<longrightarrow> (\<exists>i. ident ek = Some i \<and> i \<in> set (map rid st))"
      by simp
    from k ek(5) have h: "has_prop ek ''retry_count''" by (simp add: has_prop_map_of)
    from save_then_load [OF s coh' h] k ek(5)
    have "props_get (PendingSend st' (ident e')) ''retry_count'' = IntV (n + int k)"
      by (simp add: props_get_def)
    then show "retry_count (PendingSend st' (ident e')) = IntV (n + int k)"
      by (rule retry_count_props_get)
    show "has_prop e ''last_error''
       \<longrightarrow> props_get (PendingSend st' (ident e')) ''last_error''
           = stored ''last_error'' (props_get e ''last_error'')"
    proof
      assume "has_prop e ''last_error''"
      with ek(6) have h: "has_prop ek ''last_error''" by (simp add: has_prop_map_of)
      from save_then_load [OF s coh' h] ek(6) show
        "props_get (PendingSend st' (ident e')) ''last_error''
           = stored ''last_error'' (props_get e ''last_error'')"
        by (simp add: props_get_def)
    qed
  qed
  with ek show ?thesis by simp
qed

theorem retried_times_count_witness:
  "retry_count retried_twice_a = IntV 2
   \<and> retry_count (PendingSend outbox_a (Some 1)) = IntV 0
   \<and> retry_count (PendingSend (snd (snd (save ''2020-01-01 10:05:00'' retried_twice_a outbox_a))) (Some 1)) = IntV 2
   \<and> props_get (PendingSend (snd (snd (save ''2020-01-01 10:05:00'' retried_twice_a outbox_a))) (Some 1)) ''last_error'' = TextV ''timeout''"
proof -
  let ?e = "failed_a"
  have e: "?e = \<lparr>ident = Some 1,
      props = [(''toaddr'', TextV ''ann@example.org''), (''template_name'', TextV ''welcome''),
               (''template_vars_json'', TextV ''{}''), (''retry_count'', IntV 0),
               (''request_time'', TextV ''2020-01-01 10:00:00''), (''last_error'', TextV ''timeout'')],
      in_db = True, attrs = []\<rparr>"
    by (simp add: failed_a_def loaded_a_eq setattr_def class_defs)
  have r: "retry_count ?e = IntV 0" by (simp add: e retry_count_def)
  have t: "retried_twice_a = ?e\<lparr>props := AList.update ''retry_count'' (IntV 2) (props ?e)\<rparr>"
    unfolding retried_twice_a_def e
    by (simp add: numeral_2_eq_2 retried_def retry_count_def setattr_def class_defs)
  have s: "save ''2020-01-01 10:05:00'' retried_twice_a outbox_a
      = (None, retried_twice_a, snd (snd (save ''2020-01-01 10:05:00'' retried_twice_a outbox_a)))"
    by (simp add: t e save_def missing_props_def has_prop_def exec_update_def class_defs)
  have c: "in_db ?e \<longrightarrow> (\<exists>i. ident ?e = Some i \<and> i \<in> set (map rid outbox_a))"
    by (simp add: e outbox_a_eq)
  have l: "has_prop ?e ''last_error''" by (simp add: e has_prop_def)
  have le: "props_get ?e ''last_error'' = TextV ''timeout''"
    unfolding e by (simp add: props_get_def)
  have i: "ident retried_twice_a = Some 1" by (simp add: t e)
  have z: "retry_count (PendingSend outbox_a (Some 1)) = IntV 0"
    using loaded_a_eq by (simp add: loaded_a_def retry_count_def)
  note T = retried_times_count [OF r, of 2 outbox_a, folded retried_twice_a_def]
  from T have a: "retry_count retried_twice_a = IntV 2" by simp
  from T c l le have "save ''2020-01-01 10:05:00'' retried_twice_a outbox_a = (None, e', st') \<Longrightarrow>
      retry_count (PendingSend st' (ident e')) = IntV 2
      \<and> props_get (PendingSend st' (ident e')) ''last_error'' = props_get ?e ''last_error''"
    for e' st'
    by simp
  from this [OF s] have
    "retry_count (PendingSend (snd (snd (save ''2020-01-01 10:05:00'' retried_twice_a outbox_a))) (Some 1)) = IntV 2
     \<and> props_get (PendingSend (snd (snd (save ''2020-01-01 10:05:00'' retried_twice_a outbox_a))) (Some 1)) ''last_error''
        = props_get ?e ''last_error''"
    by (simp only: i)
  moreover have "props_get ?e ''last_error'' = TextV ''timeout''"
    unfolding e by (simp add: props_get_def)
  ultimately show ?thesis using a z by simp
qed

text \<open>
  C1 as stated fails: after one call of \<^verbatim>\<open>retried\<close> on a loaded entry the instance
  counts 1, the store is the same and a new instance for the key still counts 0.
\<close>

theorem retried_not_persisted_counterexample:
  "retried loaded_a outbox_a = (None, setattr loaded_a ''retry_count'' (IntV 1), outbox_a)
   \<and> retry_count (setattr loaded_a ''retry_count'' (IntV 1)) = IntV 1
   \<and> retry_count (PendingSend outbox_a (ident loaded_a)) = IntV 0"
proof -
  have 1: "retried loaded_a outbox_a = (None, setattr loaded_a ''retry_count'' (IntV 1), outbox_a)"
    unfolding loaded_a_eq by (simp add: retried_def retry_count_def)
  have 2: "retry_count (setattr loaded_a ''retry_count'' (IntV 1)) = IntV 1"
    by (rule retry_count_setattr)
  have "PendingSend outbox_a (ident loaded_a) = loaded_a"
    by (simp add: loaded_a_def ident_PendingSend)
  then have 3: "retry_count (PendingSend outbox_a (ident loaded_a)) = IntV 0"
    by (simp add: loaded_a_eq retry_count_def)
  from 1 2 3 show ?thesis by blast
qed

subsection \<open>Completion, continued\<close>

lemma sent_a_eq:
  "sent_a = loaded_a\<lparr>props := props loaded_a @ [(''sent_time'', TextV ''2020-01-01 10:06:00'')]\<rparr>"
  unfolding sent_a_def mark_sent_def set_time_property_def loaded_a_eq
  by (simp add: setattr_def class_defs)

lemma pending_row_a:
  "pending_row 5 \<lparr>rid = 1, cols = assign (props entry_a) (column_default ''2020-01-01 10:00:00'')\<rparr>"
  by (simp add: pending_row_def sql_less_def assign_def column_default_def entry_a_eq)

lemma unsent_outbox_a: "Unsent outbox_a 5 50 = [loaded_a]"
  using pending_row_a
  by (simp add: Unsent_def unsent_rows_def sql_limit_def outbox_a_eq loaded_a_def)

text \<open>
  C7 as stated fails: after \<^verbatim>\<open>mark_sent\<close> alone the entry's \<^verbatim>\<open>is_sent\<close> is true, the
  store is the same and the scan with the arguments 5 and 50 still yields the entry.
\<close>

theorem mark_sent_not_persisted_counterexample:
  "is_sent loaded_a = Inr False
   \<and> mark_sent ''2020-01-01 10:06:00'' loaded_a outbox_a = (None, sent_a, outbox_a)
   \<and> is_sent sent_a = Inr True
   \<and> Unsent outbox_a 5 50 = [PendingSend outbox_a (ident sent_a)]"
proof -
  have 1: "is_sent loaded_a = Inr False"
    unfolding loaded_a_eq
    by (simp add: is_sent_def sent_time_def get_time_property_def has_prop_def)
  have 2: "mark_sent ''2020-01-01 10:06:00'' loaded_a outbox_a = (None, sent_a, outbox_a)"
    by (simp add: sent_a_def mark_sent_def)
  have 3: "is_sent sent_a = Inr True"
    by (simp add: sent_a_def mark_sent_def is_sent_mark_sent)
  have "ident sent_a = Some 1" by (simp add: sent_a_eq loaded_a_eq)
  then have 4: "Unsent outbox_a 5 50 = [PendingSend outbox_a (ident sent_a)]"
    by (simp add: unsent_outbox_a loaded_a_def)
  from 1 2 3 4 show ?thesis by blast
qed

theorem mark_sent_then_save_excluded_witness:
  "is_sent sent_a = Inr True
   \<and> Some 1 \<notin> set (map ident (Unsent (snd (snd (save ''2020-01-01 10:06:01'' sent_a outbox_a))) 5 50))"
proof -
  have m: "mark_sent ''2020-01-01 10:06:00'' loaded_a outbox_a = (None, sent_a, outbox_a)"
    by (simp add: sent_a_def mark_sent_def)
  have s: "save ''2020-01-01 10:06:01'' sent_a outbox_a
      = (None, sent_a, snd (snd (save ''2020-01-01 10:06:01'' sent_a outbox_a)))"
    unfolding sent_a_eq loaded_a_eq
    by (simp add: save_def missing_props_def has_prop_def exec_update_def class_defs)
  have i: "ident sent_a = Some 1" by (simp add: sent_a_eq loaded_a_eq)
  from mark_sent_then_save_excluded [OF m s, of 5 50] i show ?thesis by simp
qed

text \<open>
  C10. For an instance with \<^verbatim>\<open>_in_db\<close> set and no required property missing,
  \<^verbatim>\<open>save\<close> leaves the instance as it was, with its key and its flag; the table keeps
  its rows and their keys in place, a row with another key is unchanged, and when
  \<^verbatim>\<open>save\<close> returns a row with the instance's key holds the instance's properties over
  its former columns.
\<close>

theorem save_update_frame:
  assumes "in_db e" and "missing_props e = []" and "save now e st = (res, e', st')"
  shows "e' = e \<and> map rid st' = map rid st
       \<and> (\<forall>(r, r') \<in> set (zip st st').
            if res = None \<and> Some (rid r) = ident e then r' = r\<lparr>cols := assign (props e) (cols r)\<rparr> else r' = r)"
proof (cases "exec_update (props e) (ident e) st")
  case (Inl err)
  with assms have "res = Some err" "e' = e" "st' = st"
    by (simp_all add: save_def)
  then show ?thesis by (auto simp: zip_same)
next
  case (Inr s)
  with assms have r: "res = None" "e' = e" "st' = s"
    by (simp_all add: save_def)
  from Inr have s: "s = map (\<lambda>r. if Some (rid r) = ident e then r\<lparr>cols := assign (props e) (cols r)\<rparr> else r) st"
    by (simp add: exec_update_def split: if_splits)
  have "map rid s = map rid st" unfolding s by (induction st) auto
  moreover have "\<forall>(r, r') \<in> set (zip st s).
      if Some (rid r) = ident e then r' = r\<lparr>cols := assign (props e) (cols r)\<rparr> else r' = r"
    unfolding s by (induction st) auto
  ultimately show ?thesis using r by auto
qed

lemma failed_a_eq:
  "failed_a = \<lparr>ident = Some 1,
      props = [(''toaddr'', TextV ''ann@example.org''), (''template_name'', TextV ''welcome''),
               (''template_vars_json'', TextV ''{}''), (''retry_count'', IntV 0),
               (''request_time'', TextV ''2020-01-01 10:00:00''), (''last_error'', TextV ''timeout'')],
      in_db = True, attrs = []\<rparr>"
  by (simp add: failed_a_def loaded_a_eq setattr_def class_defs)

theorem save_update_frame_witness:
  "fst (save ''2020-01-01 10:07:00'' failed_a outbox_a) = None
   \<and> fst (snd (save ''2020-01-01 10:07:00'' failed_a outbox_a)) = failed_a
   \<and> map rid (snd (snd (save ''2020-01-01 10:07:00'' failed_a outbox_a))) = [1]"
proof -
  have s: "save ''2020-01-01 10:07:00'' failed_a outbox_a
      = (None, failed_a, snd (snd (save ''2020-01-01 10:07:00'' failed_a outbox_a)))"
    unfolding failed_a_eq
    by (simp add: save_def missing_props_def has_prop_def exec_update_def class_defs)
  have i: "in_db failed_a" by (simp add: failed_a_eq)
  have m: "missing_props failed_a = []"
    by (simp add: failed_a_eq missing_props_def has_prop_def class_defs)
  from save_update_frame [OF i m s] have
    "map rid (snd (snd (save ''2020-01-01 10:07:00'' failed_a outbox_a))) = map rid outbox_a"
    by blast
  then have 3: "map rid (snd (snd (save ''2020-01-01 10:07:00'' failed_a outbox_a))) = [1]"
    by (simp add: outbox_a_eq)
  from s have 1: "fst (save ''2020-01-01 10:07:00'' failed_a outbox_a) = None"
    by (metis fst_conv)
  from s have 2: "fst (snd (save ''2020-01-01 10:07:00'' failed_a outbox_a)) = failed_a"
    by (metis fst_conv snd_conv)
  from 1 2 3 show ?thesis by blast
qed


subsection \<open>The scan\<close>

lemma find_distinct:
  "distinct (map rid st) \<Longrightarrow> r \<in> set st \<Longrightarrow> find (\<lambda>x. rid x = rid r) st = Some r"
  by (induction st) (auto simp: rev_image_eqI)

lemma sorted_sql_limit:
  "sorted (map f xs) \<Longrightarrow> sorted (map f (sql_limit n xs))"
  by (simp add: sql_limit_def take_map [symmetric] sorted_wrt_take)

lemma unsent_rows_sorted:
  "sorted (map (\<lambda>r. sql_key (cols r ''request_time'')) (unsent_rows st m n))"
  unfolding unsent_rows_def by (intro sorted_sql_limit sorted_sort_key)

lemma length_unsent_rows: "0 \<le> n \<Longrightarrow> int (length (unsent_rows st m n)) \<le> n"
  by (simp add: unsent_rows_def sql_limit_def)

lemma sql_less_IntV: "sql_less v (IntV m) \<Longrightarrow> \<exists>c. v = IntV c \<and> c < m"
  by (cases v) (auto simp: sql_less_def less_prod_def)

text \<open>
  C2. \<^verbatim>\<open>Unsent(max_retry = m, max_results = n)\<close> yields at most \<open>n\<close> entries, for every
  store and every count \<open>n \<ge> 0\<close>. In a table whose keys are distinct, as the primary key
  \<^verbatim>\<open>id\<close> makes them, every entry it yields has an integer retry count below \<open>m\<close> and no
  sent time, and the entries are in non-decreasing order of their \<^verbatim>\<open>request_time\<close> (texts
  of the form \<^verbatim>\<open>YYYY-MM-DD HH:MM:SS\<close> compare as the instants they denote).
\<close>

theorem unsent_sound:
  "(0 \<le> n \<longrightarrow> int (length (Unsent st m n)) \<le> n)
   \<and> (distinct (map rid st) \<longrightarrow>
        (\<forall>e \<in> set (Unsent st m n).
            (\<exists>c. retry_count e = IntV c \<and> c < m) \<and> sent_time e = Inr None \<and> is_sent e = Inr False)
        \<and> sorted (map (\<lambda>e. sql_key (props_get e ''request_time'')) (Unsent st m n)))"
proof -
  have 2: "0 \<le> n \<longrightarrow> int (length (Unsent st m n)) \<le> n"
    by (simp add: Unsent_def length_unsent_rows)
  have 13: "(\<forall>e \<in> set (Unsent st m n).
            (\<exists>c. retry_count e = IntV c \<and> c < m) \<and> sent_time e = Inr None \<and> is_sent e = Inr False)
        \<and> sorted (map (\<lambda>e. sql_key (props_get e ''request_time'')) (Unsent st m n))"
    if assms: "distinct (map rid st)"
  proof -
    have loaded: "map_of (props (PendingSend st (Some (rid r)))) c =
        (if c \<in> set outbox_columns \<and> cols r c \<noteq> Null then Some (cols r c) else None)"
      if "r \<in> set (unsent_rows st m n)" for r c
    proof -
      from that set_unsent_rows have "r \<in> set st" by blast
      with assms have "find (\<lambda>x. rid x = rid r) st = Some r" by (rule find_distinct)
      then show ?thesis by (rule PendingSend_found)
    qed
    have 1: "(\<exists>c. retry_count e = IntV c \<and> c < m) \<and> sent_time e = Inr None \<and> is_sent e = Inr False"
      if "e \<in> set (Unsent st m n)" for e
    proof -
      from that obtain r where e: "e = PendingSend st (Some (rid r))"
        and r: "r \<in> set (unsent_rows st m n)"
        by (auto simp: Unsent_def)
      from r set_unsent_rows have p: "pending_row m r" by blast
      then obtain c where c: "cols r ''retry_count'' = IntV c" "c < m"
        using sql_less_IntV by (auto simp: pending_row_def)
      from p have s: "cols r ''sent_time'' = Null" by (simp add: pending_row_def)
      have "retry_count e = IntV c"
        by (simp add: retry_count_def e loaded [OF r] c outbox_columns_def)
      moreover have "sent_time e = Inr None"
        by (simp add: sent_time_def get_time_property_def has_prop_map_of e loaded [OF r] s)
      ultimately show ?thesis using c by (simp add: is_sent_def)
    qed
    have "map (\<lambda>e. sql_key (props_get e ''request_time'')) (Unsent st m n)
        = map (\<lambda>r. sql_key (cols r ''request_time'')) (unsent_rows st m n)"
      unfolding Unsent_def map_map
    proof (rule map_cong [OF refl])
      fix r assume "r \<in> set (unsent_rows st m n)"
      from loaded [OF this, of "''request_time''"]
      show "((\<lambda>e. sql_key (props_get e ''request_time'')) \<circ> (\<lambda>r. PendingSend st (Some (rid r)))) r
          = sql_key (cols r ''request_time'')"
        by (simp add: props_get_def outbox_columns_def)
    qed
    with unsent_rows_sorted have 3:
      "sorted (map (\<lambda>e. sql_key (props_get e ''request_time'')) (Unsent st m n))"
      by simp
    from 1 3 show ?thesis by blast
  qed
  from 2 13 show ?thesis by blast
qed

lemma unsent_outbox_w:
  "map ident (Unsent outbox_w 5 2) = [Some 4, Some 5]"
  "map retry_count (Unsent outbox_w 5 2) = [IntV 4, IntV 0]"
  "map (\<lambda>e. props_get e ''request_time'') (Unsent outbox_w 5 2)
     = [TextV ''2020-01-01 10:00:00'', TextV ''2020-01-01 10:00:02'']"
  "length (filter (pending_row 5) outbox_w) = 3"
  by code_simp+

theorem unsent_sound_witness:
  "map ident (Unsent outbox_w 5 2) = [Some 4, Some 5]
   \<and> map (\<lambda>e. props_get e ''request_time'') (Unsent outbox_w 5 2)
       = [TextV ''2020-01-01 10:00:00'', TextV ''2020-01-01 10:00:02'']
   \<and> length (filter (pending_row 5) outbox_w) = 3
   \<and> int (length (Unsent outbox_w 5 2)) \<le> 2
   \<and> map retry_count (Unsent outbox_w 5 2) = [IntV 4, IntV 0]
   \<and> list_all (\<lambda>e. sent_time e = Inr None \<and> is_sent e = Inr False) (Unsent outbox_w 5 2)
   \<and> sorted (map (\<lambda>e. sql_key (props_get e ''request_time'')) (Unsent outbox_w 5 2))"
proof -
  have d: "distinct (map rid outbox_w)" by (simp add: outbox_w_def queued_def)
  from unsent_sound [of 2 outbox_w 5] d have
    "int (length (Unsent outbox_w 5 2)) \<le> 2"
    "list_all (\<lambda>e. sent_time e = Inr None \<and> is_sent e = Inr False) (Unsent outbox_w 5 2)"
    "sorted (map (\<lambda>e. sql_key (props_get e ''request_time'')) (Unsent outbox_w 5 2))"
    by (simp_all add: list_all_iff)
  with unsent_outbox_w show ?thesis by simp
qed

lemma exec_update_keys:
  assumes "exec_update ps i st = Inr st'"
  shows "map rid st' = map rid st"
proof -
  from assms have "st' = map (\<lambda>r. if Some (rid r) = i then r\<lparr>cols := assign ps (cols r)\<rparr> else r) st"
    by (simp add: exec_update_def split: if_splits)
  then show ?thesis by (simp add: comp_def if_distrib [of rid] cong: if_cong)
qed

text \<open>The keys of the table stay distinct: \<^verbatim>\<open>id\<close> is its primary key.\<close>

lemma store_keys_distinct_save:
  assumes "distinct (map rid st)"
  shows "distinct (map rid (snd (snd (save now e st))))"
proof (cases "save now e st")
  case (fields res e' st')
  show ?thesis
  proof (cases res)
    case (Some err)
    with fields have "st' = st"
      by (auto simp: save_def Let_def split: if_splits sum.splits prod.splits)
    with assms fields show ?thesis by simp
  next
    case None
    show ?thesis
    proof (cases "in_db e")
      case True
      with fields None obtain u: "exec_update (props e) (ident e) st = Inr st'"
        by (auto simp: save_def Let_def split: if_splits sum.splits)
      from exec_update_keys [OF u] assms fields show ?thesis by simp
    next
      case False
      from fields None False obtain k where
        u: "exec_insert now (ident e) (props e) st = Inr (k, st')"
        by (auto simp: save_def Let_def split: sum.splits prod.splits if_splits)
      then have "st' = st @ [\<lparr>rid = k, cols = assign (props e) (column_default now)\<rparr>]"
        and "k \<notin> set (map rid st)"
        using next_rowid_fresh [of st]
        by (auto simp: exec_insert_def Let_def split: if_splits option.splits)
      with assms fields show ?thesis by simp
    qed
  qed
qed

lemma store_keys_distinct_delete:
  "distinct (map rid st) \<Longrightarrow> distinct (map rid (snd (snd (delete e st))))"
  by (simp add: delete_def exec_delete_def distinct_map_filter split: sum.splits)


subsection \<open>Scenario A\<close>

lemma find_absent: "i \<notin> set (map rid st) \<Longrightarrow> find (\<lambda>r. rid r = i) st = None"
  by (induction st) auto

lemma find_append_rows:
  "find P (xs @ ys) = (case find P xs of None \<Rightarrow> find P ys | Some x \<Rightarrow> Some x)"
  by (induction xs) auto

lemma draft_keys:
  assumes "draft e"
  shows "list_all (\<lambda>k. k \<in> set outbox_columns) (map fst (props e))"
    and "map_of (props e) ''retry_count'' = None"
    and "map_of (props e) ''sent_time'' = None"
    and "map_of (props e) ''request_time'' = None"
  using assms
  by (auto simp: draft_def list_all_iff map_of_eq_None_iff class_defs)

lemma save_draft:
  assumes "draft e"
  shows "save now e st = (None, e\<lparr>ident := Some (next_rowid st), in_db := True\<rparr>, st @ [new_row now e st])"
  using assms draft_keys(1) [OF assms]
  by (simp add: save_def exec_insert_def draft_def new_row_def bindable_id_def Let_def)

lemma new_row_cols:
  assumes "draft e"
  shows "pending_row 5 (new_row now e st)"
    and "cols (new_row now e st) ''request_time'' = TextV now"
    and "has_prop e c \<Longrightarrow> cols (new_row now e st) c = stored c (props_get e c)"
    and "rid (new_row now e st) = next_rowid st"
  using draft_keys(2-4) [OF assms]
  by (auto simp: new_row_def pending_row_def sql_less_def assign_def column_default_def
      props_get_def has_prop_map_of less_prod_def)

text \<open>
  C3. Three new entries with the required properties assigned (and no retry count and no
  sent time) are saved at the times \<open>t1 < t2 < t3\<close> into an outbox that holds no pending
  entry. Each save returns, and \<^verbatim>\<open>Unsent(5, 2)\<close> yields exactly the entry of the first and
  the entry of the second save, in that order, with the request times \<open>t1\<close> and \<open>t2\<close> and
  the properties that were saved, as the store keeps them (a text or \<^verbatim>\<open>None\<close> as it is).
\<close>

theorem unsent_scenario_a:
  assumes d: "draft e1" "draft e2" "draft e3"
    and t: "t1 < t2" "t2 < t3"
    and st0: "\<forall>r \<in> set st0. \<not> pending_row 5 r"
  shows "\<exists>a st1 b st2 c st3.
      save t1 e1 st0 = (None, a, st1) \<and> save t2 e2 st1 = (None, b, st2)
    \<and> save t3 e3 st2 = (None, c, st3)
    \<and> Unsent st3 5 2 = [PendingSend st3 (ident a), PendingSend st3 (ident b)]
    \<and> props_get (PendingSend st3 (ident a)) ''request_time'' = TextV t1
    \<and> props_get (PendingSend st3 (ident b)) ''request_time'' = TextV t2
    \<and> (\<forall>p. has_prop e1 p \<longrightarrow> props_get (PendingSend st3 (ident a)) p = stored p (props_get e1 p))
    \<and> (\<forall>p. has_prop e2 p \<longrightarrow> props_get (PendingSend st3 (ident b)) p = stored p (props_get e2 p))"
proof -
  define r1 where "r1 = new_row t1 e1 st0"
  define st1 where "st1 = st0 @ [r1]"
  define r2 where "r2 = new_row t2 e2 st1"
  define st2 where "st2 = st1 @ [r2]"
  define r3 where "r3 = new_row t3 e3 st2"
  define st3 where "st3 = st2 @ [r3]"
  define a where "a = e1\<lparr>ident := Some (rid r1), in_db := True\<rparr>"
  define b where "b = e2\<lparr>ident := Some (rid r2), in_db := True\<rparr>"
  define c where "c = e3\<lparr>ident := Some (rid r3), in_db := True\<rparr>"
  have s1: "save t1 e1 st0 = (None, a, st1)"
    by (simp add: save_draft [OF d(1)] a_def st1_def r1_def new_row_cols(4) [OF d(1)])
  have s2: "save t2 e2 st1 = (None, b, st2)"
    by (simp add: save_draft [OF d(2)] b_def st2_def r2_def new_row_cols(4) [OF d(2)])
  have s3: "save t3 e3 st2 = (None, c, st3)"
    by (simp add: save_draft [OF d(3)] c_def st3_def r3_def new_row_cols(4) [OF d(3)])
  have st3: "st3 = st0 @ [r1, r2, r3]" by (simp add: st3_def st2_def st1_def)
  have p: "pending_row 5 r1" "pending_row 5 r2" "pending_row 5 r3"
    unfolding r1_def r2_def r3_def by (rule new_row_cols(1) [OF d(1)] new_row_cols(1) [OF d(2)] new_row_cols(1) [OF d(3)])+
  have rt: "cols r1 ''request_time'' = TextV t1" "cols r2 ''request_time'' = TextV t2"
    "cols r3 ''request_time'' = TextV t3"
    unfolding r1_def r2_def r3_def by (simp_all add: new_row_cols(2) d)
  from st0 have "filter (pending_row 5) st0 = []" by (simp add: filter_empty_conv)
  with p have f: "filter (pending_row 5) st3 = [r1, r2, r3]" by (simp add: st3)
  from t have "t1 \<le> t2" "t2 \<le> t3" "t1 \<le> t3" by auto
  then have "sorted (map (\<lambda>r. sql_key (cols r ''request_time'')) [r1, r2, r3])"
    by (simp add: rt less_eq_prod_def less_prod_def)
  then have "sort_key (\<lambda>r. sql_key (cols r ''request_time'')) [r1, r2, r3] = [r1, r2, r3]"
    by (rule sort_key_id_if_sorted)
  then have rows: "unsent_rows st3 5 2 = [r1, r2]"
    by (simp add: unsent_rows_def f sql_limit_def)
  have k1: "rid r1 \<notin> set (map rid st0)"
    unfolding r1_def new_row_cols(4) [OF d(1)] by (rule next_rowid_fresh)
  have k2: "rid r2 \<notin> set (map rid st1)"
    unfolding r2_def new_row_cols(4) [OF d(2)] by (rule next_rowid_fresh)
  from k1 have "find (\<lambda>r. rid r = rid r1) st0 = None"
    by (rule find_absent)
  then have f1: "find (\<lambda>r. rid r = rid r1) st3 = Some r1"
    by (simp add: st3 find_append_rows)
  from k2 have "find (\<lambda>r. rid r = rid r2) st1 = None"
    by (rule find_absent)
  moreover have "st3 = st1 @ [r2, r3]" by (simp add: st3_def st2_def)
  ultimately have f2: "find (\<lambda>r. rid r = rid r2) st3 = Some r2"
    by (simp add: find_append_rows)
  have ia: "ident a = Some (rid r1)" and ib: "ident b = Some (rid r2)"
    by (simp_all add: a_def b_def)
  have u: "Unsent st3 5 2 = [PendingSend st3 (ident a), PendingSend st3 (ident b)]"
    by (simp add: Unsent_def rows ia ib)
  have rq: "''request_time'' \<in> set outbox_columns" by (simp add: outbox_columns_def)
  have q1: "props_get (PendingSend st3 (ident a)) ''request_time'' = TextV t1"
    unfolding ia props_get_found [OF f1 rq] by (rule rt)
  have q2: "props_get (PendingSend st3 (ident b)) ''request_time'' = TextV t2"
    unfolding ib props_get_found [OF f2 rq] by (rule rt)
  have v1: "props_get (PendingSend st3 (ident a)) p = stored p (props_get e1 p)" if "has_prop e1 p" for p
  proof -
    from that draft_keys(1) [OF d(1)] have "p \<in> set outbox_columns"
      by (auto simp: has_prop_def list_all_iff)
    from props_get_found [OF f1 this] new_row_cols(3) [OF d(1) that] show ?thesis
      by (simp add: ia r1_def)
  qed
  have v2: "props_get (PendingSend st3 (ident b)) p = stored p (props_get e2 p)" if "has_prop e2 p" for p
  proof -
    from that draft_keys(1) [OF d(2)] have "p \<in> set outbox_columns"
      by (auto simp: has_prop_def list_all_iff)
    from props_get_found [OF f2 this] new_row_cols(3) [OF d(2) that] show ?thesis
      by (simp add: ib r2_def)
  qed
  from s1 s2 s3 u q1 q2 v1 v2 show ?thesis by blast
qed


lemma t_less: "''2020-01-01 10:00:00'' < ''2020-01-01 10:00:01''"
  "''2020-01-01 10:00:01'' < ''2020-01-01 10:00:02''"
  by code_simp+

lemma draft_entries: "draft entry_a" "draft entry_b" "draft entry_c"
  unfolding entry_b_def entry_c_def entry_a_eq
  by (simp_all add: draft_def missing_props_def has_prop_def setattr_def class_defs)

theorem unsent_scenario_a_witness:
  "map ident (Unsent outbox_abc 5 2) = [Some 1, Some 2]
   \<and> map (\<lambda>e. props_get e ''toaddr'') (Unsent outbox_abc 5 2)
       = [TextV ''ann@example.org'', TextV ''bob@example.org'']"
proof -
  have e: "\<forall>r \<in> set []. \<not> pending_row 5 r" by simp
  from unsent_scenario_a [OF draft_entries t_less e]
  obtain a st1 b st2 c st3 where
    s: "save ''2020-01-01 10:00:00'' entry_a [] = (None, a, st1)"
      "save ''2020-01-01 10:00:01'' entry_b st1 = (None, b, st2)"
      "save ''2020-01-01 10:00:02'' entry_c st2 = (None, c, st3)"
    and u: "Unsent st3 5 2 = [PendingSend st3 (ident a), PendingSend st3 (ident b)]"
    and v: "\<forall>p. has_prop entry_a p \<longrightarrow> props_get (PendingSend st3 (ident a)) p = stored p (props_get entry_a p)"
      "\<forall>p. has_prop entry_b p \<longrightarrow> props_get (PendingSend st3 (ident b)) p = stored p (props_get entry_b p)"
    by blast
  from s(1) have st1: "st1 = outbox_a" and a: "ident a = Some 1"
    by (auto simp: outbox_a_def save_entry_a)
  from s(2) have st2: "st2 = snd (snd (save ''2020-01-01 10:00:01'' entry_b outbox_a))"
    by (simp add: st1)
  from s(3) have st3: "st3 = outbox_abc"
    by (simp add: outbox_abc_def st2)
  from s(2) have b: "ident b = Some 2"
    unfolding st1 outbox_a_eq entry_b_def entry_a_eq
    by (auto simp: save_def missing_props_def has_prop_def setattr_def exec_insert_def
        next_rowid_def class_defs)
  have h: "has_prop entry_a ''toaddr''" "has_prop entry_b ''toaddr''"
    unfolding entry_b_def entry_a_eq by (simp_all add: has_prop_def setattr_def class_defs)
  have g: "props_get entry_a ''toaddr'' = TextV ''ann@example.org''"
    "props_get entry_b ''toaddr'' = TextV ''bob@example.org''"
    unfolding entry_b_def entry_a_eq by (simp_all add: props_get_def setattr_def class_defs)
  from u v h g show ?thesis
    by (simp add: st3 [symmetric] ident_PendingSend a b)
qed

subsection \<open>Encoding and decoding JSON\<close>

lemma of_char_digits [simp]: "of_char CHR ''0'' = (48::nat)" "of_char CHR ''9'' = (57::nat)"
  by simp_all





lemma nat_of_digits_snoc: "nat_of_digits (ds @ [c]) = 10 * nat_of_digits ds + digit_val c"
  by (simp add: nat_of_digits_def)


lemma hex_val_hex_char: "d < 16 \<Longrightarrow> hex_val (hex_char d) = Some d"
proof -
  assume d: "d < 16"
  show ?thesis
  proof (cases "d < 10")
    case True
    then have "of_char (hex_char d) = 48 + d" by (simp add: hex_char_def)
    with True show ?thesis by (simp add: hex_val_def less_eq_char_def)
  next
    case False
    with d have "of_char (hex_char d) = 97 + (d - 10)" by (simp add: hex_char_def)
    with False d show ?thesis by (simp add: hex_val_def less_eq_char_def)
  qed
qed

lemma hex4_escape:
  "hex4 CHR ''0'' CHR ''0'' (hex_char (of_char c div 16)) (hex_char (of_char c mod 16)) = Some (of_char c)"
proof -
  have "(of_char c :: nat) < 256" by simp
  then have "(of_char c :: nat) div 16 < 16" by (simp add: less_mult_imp_div_less)
  then have 1: "hex_val (hex_char (of_char c div 16)) = Some (of_char c div 16)"
    by (rule hex_val_hex_char)
  have 2: "hex_val (hex_char (of_char c mod 16)) = Some (of_char c mod 16)"
    by (rule hex_val_hex_char) simp
  have 0: "hex_val CHR ''0'' = Some 0" by (simp add: hex_val_def less_eq_char_def)
  show ?thesis by (simp add: hex4_def 0 1 2)
qed

lemma scanstring_escape_char:
  "scanstring acc (escape_char c @ r) = scanstring (acc @ [c]) r"
proof -
  consider (special) "c \<in> {bsl, dq, CHR 0x08, CHR 0x0C, CHR 0x0A, CHR 0x0D, CHR 0x09}"
    | (plain) "c \<notin> {bsl, dq, CHR 0x08, CHR 0x0C, CHR 0x0A, CHR 0x0D, CHR 0x09}" "CHR '' '' \<le> c \<and> c \<le> CHR ''~''"
    | (other) "c \<notin> {bsl, dq, CHR 0x08, CHR 0x0C, CHR 0x0A, CHR 0x0D, CHR 0x09}" "\<not> (CHR '' '' \<le> c \<and> c \<le> CHR ''~'')"
    by blast
  then show ?thesis
  proof cases
    case special
    then show ?thesis by (auto simp: escape_char_def backslash_def)
  next
    case plain
    then have "\<not> c < CHR '' ''" by auto
    with plain show ?thesis by (simp add: escape_char_def)
  next
    case other
    then have "escape_char c = [bsl, CHR ''u'', CHR ''0'', CHR ''0'', hex_char (of_char c div 16), hex_char (of_char c mod 16)]"
      by (simp add: escape_char_def)
    then show ?thesis by (simp add: hex4_escape)
  qed
qed

lemma scanstring_encoded:
  "scanstring acc (concat (map escape_char s) @ dq # r) = Some (acc @ s, r)"
proof (induction s arbitrary: acc)
  case Nil
  then show ?case by simp
next
  case (Cons c s)
  have "scanstring acc (concat (map escape_char (c # s)) @ dq # r)
      = scanstring acc (escape_char c @ (concat (map escape_char s) @ dq # r))"
    by simp
  also have "\<dots> = scanstring (acc @ [c]) (concat (map escape_char s) @ dq # r)"
    by (rule scanstring_escape_char)
  also have "\<dots> = Some ((acc @ [c]) @ s, r)" by (rule Cons.IH)
  finally show ?case by simp
qed

lemma scanstring_encode_string:
  "encode_string s @ r = dq # t \<Longrightarrow> scanstring [] t = Some (s, r)"
  using scanstring_encoded [of "[]" s r] by (simp add: encode_string_def)

lemma not_digit_delims [simp]:
  "\<not> is_digit CHR '',''" "\<not> is_digit CHR '']''" "\<not> is_digit CHR ''}''" "\<not> is_digit CHR ''-''"
  "\<not> is_digit CHR ''.''" "\<not> is_digit CHR ''e''" "\<not> is_digit CHR ''E''" "\<not> is_digit CHR ''+''"
  by (simp_all add: is_digit_def less_eq_char_def)



























lemma encode_string_start: "\<exists>u. encode_string k = dq # u"
  by (simp add: encode_string_def)

lemma delimited_simps [simp]:
  "delimited []" "delimited (CHR '','' # s)" "delimited (CHR '']'' # s)" "delimited (CHR ''}'' # s)"
  by (simp_all add: delimited_def)











subsection \<open>The template variables\<close>




lemma dumps_scenario_e: "dumps toy_repr scenario_e = ''{\"name\": \"Ann\", \"count\": 3}''"
  by code_simp





subsection \<open>The invariant of the properties\<close>

lemma props_declared_update:
  assumes "props_declared e" and "name \<in> set outbox_columns"
  shows "props_declared (e\<lparr>props := AList.update name v (props e)\<rparr>)"
  using assms by (auto simp: props_declared_iff dom_update)

lemma save_instance:
  "props (fst (snd (save now e st))) = props e"
  by (auto simp: save_def Let_def split: sum.splits prod.splits)

lemma retried_instance:
  "fst (snd (retried e st)) = e \<or> (\<exists>v. fst (snd (retried e st)) = setattr e ''retry_count'' v)"
  by (auto simp: retried_def split: sqlval.splits)

lemma props_declared_setattr:
  assumes "props_declared e"
  shows "props_declared (setattr e name v)"
proof (cases "name \<in> set db_props")
  case True
  with declared_names(2) have "name \<in> set outbox_columns" by blast
  from props_declared_update [OF assms this] True show ?thesis by (simp add: setattr_def)
next
  case False
  with assms show ?thesis by (simp add: setattr_def props_declared_def)
qed

text \<open>
  C9. A new instance, loaded or not, holds only declared keys in \<^verbatim>\<open>_props\<close>; and when an
  instance does, it still does after \<^verbatim>\<open>_load\<close>, after an attribute is assigned (declared
  or not), after \<^verbatim>\<open>save\<close>, \<^verbatim>\<open>delete\<close>, \<^verbatim>\<open>mark_sent\<close> and \<^verbatim>\<open>retried\<close>, and after
  the setter of \<^verbatim>\<open>template_vars\<close>.
\<close>

theorem props_declared_invariant:
  "props_declared (PendingSend st i)
   \<and> (props_declared e \<longrightarrow>
        props_declared (load e st)
      \<and> props_declared (setattr e name v)
      \<and> props_declared (fst (snd (save now e st)))
      \<and> props_declared (fst (snd (delete e st)))
      \<and> props_declared (fst (snd (mark_sent now e st)))
      \<and> props_declared (fst (snd (retried e st)))
      \<and> props_declared (set_template_vars rf e j))"
proof (intro conjI impI)
  have ld: "props_declared (load x st)" if "props_declared x" for x
  proof (cases "fetchone (ident x) st")
    case None
    with that show ?thesis by (simp add: load_def)
  next
    case (Some r)
    from that have "fst ` set (props x) \<union> set outbox_columns \<subseteq> set outbox_columns"
      by (simp add: props_declared_iff)
    with keys_load_row [of r "props x"]
    have "fst ` set (load_row r (props x)) \<subseteq> set outbox_columns"
      by (rule subset_trans)
    with Some show ?thesis by (simp add: load_def props_declared_iff)
  qed
  have "props_declared \<lparr>ident = i, props = [], in_db = False, attrs = []\<rparr>"
    by (simp add: props_declared_def)
  with ld show "props_declared (PendingSend st i)"
    by (auto simp: PendingSend_def Let_def)
  assume e: "props_declared e"
  from e show "props_declared (load e st)" by (rule ld)
  from e show "props_declared (setattr e name v)" by (rule props_declared_setattr)
  from e show "props_declared (fst (snd (save now e st)))"
    by (simp add: props_declared_def save_instance)
  from e show "props_declared (fst (snd (delete e st)))"
    by (simp add: delete_def props_declared_def split: sum.splits)
  from e show "props_declared (fst (snd (mark_sent now e st)))"
    by (simp add: mark_sent_def set_time_property_def props_declared_setattr)
  from e retried_instance [of e st] show "props_declared (fst (snd (retried e st)))"
    by (auto simp: props_declared_setattr)
  from e show "props_declared (set_template_vars rf e j)"
    unfolding set_template_vars_def by (rule props_declared_update) (rule declared_names(3))
qed

theorem props_declared_invariant_witness:
  "props_declared loaded_a
   \<and> props_declared (setattr loaded_a ''last_error'' (TextV ''timeout''))
   \<and> props_declared (setattr loaded_a ''colour'' (TextV ''red''))
   \<and> props (setattr loaded_a ''colour'' (TextV ''red'')) = props loaded_a
   \<and> props_declared (fst (snd (retried loaded_a outbox_a)))
   \<and> props_declared (set_template_vars toy_repr loaded_a scenario_e)"
proof -
  note A = props_declared_invariant [of outbox_a "Some 1" loaded_a "''last_error''"
      "TextV ''timeout''" "''2020-01-01 10:08:00''" toy_repr scenario_e]
  note B = props_declared_invariant [of outbox_a "Some 1" loaded_a "''colour''"
      "TextV ''red''" "''2020-01-01 10:08:00''" toy_repr scenario_e]
  from A have l: "props_declared loaded_a" by (simp add: loaded_a_def)
  have c: "props (setattr loaded_a ''colour'' (TextV ''red'')) = props loaded_a"
    by (simp add: setattr_def class_defs)
  from l A B c show ?thesis by blast
qed

subsection \<open>The order of the timestamps\<close>

text \<open>The scan orders the entries by the texts of their request times; on timestamps
  that is the order of the instants.\<close>

lemma digit_val_less:
  assumes "is_digit a" "is_digit b"
  shows "a < b \<longleftrightarrow> digit_val a < digit_val b"
proof -
  from assms have "48 \<le> (of_char a :: nat)" "48 \<le> (of_char b :: nat)"
    by (simp_all add: is_digit_def less_eq_char_def)
  then show ?thesis by (auto simp: digit_val_def less_char_def)
qed

lemma digit_val_eq:
  assumes "is_digit a" "is_digit b"
  shows "a = b \<longleftrightarrow> digit_val a = digit_val b"
proof
  assume h: "digit_val a = digit_val b"
  from assms have "48 \<le> (of_char a :: nat)" "48 \<le> (of_char b :: nat)"
    by (simp_all add: is_digit_def less_eq_char_def)
  moreover from h have "(of_char a :: nat) - 48 = of_char b - 48" by (simp add: digit_val_def)
  ultimately have "(of_char a :: nat) = of_char b" by linarith
  then show "a = b" by simp
qed simp

lemma digit_val_bound:
  assumes "is_digit a"
  shows "digit_val a < 10"
proof -
  from assms have "(of_char a :: nat) \<le> 57" by (simp add: is_digit_def less_eq_char_def)
  then have "(of_char a :: nat) - 48 < 10" by linarith
  then show ?thesis by (simp add: digit_val_def)
qed

lemma nat_of_digits_Cons:
  "nat_of_digits (c # cs) = digit_val c * 10 ^ length cs + nat_of_digits cs"
proof (induction cs rule: rev_induct)
  case Nil
  then show ?case by (simp add: nat_of_digits_def)
next
  case (snoc d cs)
  have "nat_of_digits (c # cs @ [d]) = 10 * nat_of_digits (c # cs) + digit_val d"
    using nat_of_digits_snoc [of "c # cs" d] by simp
  with snoc show ?case by (simp add: nat_of_digits_snoc algebra_simps)
qed

lemma nat_of_digits_bound:
  "list_all is_digit xs \<Longrightarrow> nat_of_digits xs < 10 ^ length xs"
proof (induction xs)
  case Nil
  then show ?case by (simp add: nat_of_digits_def)
next
  case (Cons c xs)
  then have v: "nat_of_digits xs < 10 ^ length xs" and d: "digit_val c \<le> 9"
    using digit_val_bound [of c] by simp_all
  from d have "digit_val c * 10 ^ length xs \<le> 9 * 10 ^ length xs" by (rule mult_le_mono1)
  from this v have "digit_val c * 10 ^ length xs + nat_of_digits xs < 9 * 10 ^ length xs + 10 ^ length xs"
    by (rule add_le_less_mono)
  then show ?case by (simp add: nat_of_digits_Cons)
qed

lemma digits_less_iff:
  assumes "length xs = length ys" and "list_all is_digit xs" and "list_all is_digit ys"
  shows "xs < ys \<longleftrightarrow> nat_of_digits xs < nat_of_digits ys"
  using assms
proof (induction xs ys rule: list_induct2)
  case Nil
  then show ?case by (simp add: nat_of_digits_def)
next
  case (Cons x xs y ys)
  let ?n = "(10::nat) ^ length xs"
  from Cons have ih: "xs < ys \<longleftrightarrow> nat_of_digits xs < nat_of_digits ys" by simp
  from Cons.prems Cons.hyps nat_of_digits_bound [of xs] nat_of_digits_bound [of ys]
  have b: "nat_of_digits xs < ?n" "nat_of_digits ys < ?n" by simp_all
  from Cons.prems have d: "is_digit x" "is_digit y" by simp_all
  have "digit_val x * ?n + nat_of_digits xs < digit_val y * ?n + nat_of_digits ys
      \<longleftrightarrow> digit_val x < digit_val y \<or> (digit_val x = digit_val y \<and> nat_of_digits xs < nat_of_digits ys)"
  proof -
    consider "digit_val x < digit_val y" | "digit_val x = digit_val y" | "digit_val y < digit_val x"
      by linarith
    then show ?thesis
    proof cases
      case 1
      then have "Suc (digit_val x) \<le> digit_val y" by simp
      then have "Suc (digit_val x) * ?n \<le> digit_val y * ?n" by (rule mult_le_mono1)
      then have "digit_val x * ?n + ?n \<le> digit_val y * ?n" by simp
      with b(1) have "digit_val x * ?n + nat_of_digits xs < digit_val y * ?n" by linarith
      with 1 show ?thesis by simp
    next
      case 2
      then show ?thesis by simp
    next
      case 3
      then have "Suc (digit_val y) \<le> digit_val x" by simp
      then have "Suc (digit_val y) * ?n \<le> digit_val x * ?n" by (rule mult_le_mono1)
      then have "digit_val y * ?n + ?n \<le> digit_val x * ?n" by simp
      with b(2) have "digit_val y * ?n + nat_of_digits ys < digit_val x * ?n" by linarith
      with 3 show ?thesis by simp
    qed
  qed
  with ih Cons.hyps show ?case
    by (simp add: nat_of_digits_Cons digit_val_less [OF d] digit_val_eq [OF d])
qed

lemma not_digit_separators [simp]: "\<not> is_digit CHR '' ''" "\<not> is_digit CHR '':''"
  by (simp_all add: is_digit_def less_eq_char_def)

lemma timestamp_digits:
  assumes "timestamp t"
  shows "\<exists>y1 y2 y3 y4 m1 m2 d1 d2 h1 h2 n1 n2 c1 c2.
      t = [y1, y2, y3, y4, CHR ''-'', m1, m2, CHR ''-'', d1, d2, CHR '' '', h1, h2, CHR '':'',
           n1, n2, CHR '':'', c1, c2]
    \<and> list_all is_digit [y1, y2, y3, y4, m1, m2, d1, d2, h1, h2, n1, n2, c1, c2]"
  using assms by (auto simp: timestamp_def split: list.splits)

lemma timestamp_less_digits:
  assumes "timestamp a" and "timestamp b"
  shows "a < b \<longleftrightarrow> filter is_digit a < filter is_digit b"
    and "length (filter is_digit a) = length (filter is_digit b)"
    and "list_all is_digit (filter is_digit a)"
proof -
  from timestamp_digits [OF assms(1)] obtain y1 y2 y3 y4 m1 m2 d1 d2 h1 h2 n1 n2 c1 c2 where
    a: "a = [y1, y2, y3, y4, CHR ''-'', m1, m2, CHR ''-'', d1, d2, CHR '' '', h1, h2, CHR '':'',
           n1, n2, CHR '':'', c1, c2]"
    and da: "list_all is_digit [y1, y2, y3, y4, m1, m2, d1, d2, h1, h2, n1, n2, c1, c2]"
    by blast
  from timestamp_digits [OF assms(2)] obtain z1 z2 z3 z4 k1 k2 e1 e2 g1 g2 j1 j2 b1 b2 where
    b: "b = [z1, z2, z3, z4, CHR ''-'', k1, k2, CHR ''-'', e1, e2, CHR '' '', g1, g2, CHR '':'',
           j1, j2, CHR '':'', b1, b2]"
    and db: "list_all is_digit [z1, z2, z3, z4, k1, k2, e1, e2, g1, g2, j1, j2, b1, b2]"
    by blast
  from da have fa: "filter is_digit a = [y1, y2, y3, y4, m1, m2, d1, d2, h1, h2, n1, n2, c1, c2]"
    by (simp add: a)
  from db have fb: "filter is_digit b = [z1, z2, z3, z4, k1, k2, e1, e2, g1, g2, j1, j2, b1, b2]"
    by (simp add: b)
  show "a < b \<longleftrightarrow> filter is_digit a < filter is_digit b"
    unfolding fa fb unfolding a b by auto
  show "length (filter is_digit a) = length (filter is_digit b)" by (simp add: fa fb)
  show "list_all is_digit (filter is_digit a)" by (simp add: list_all_iff)
qed

lemma timestamp_order:
  assumes "timestamp a" and "timestamp b"
  shows "a < b \<longleftrightarrow> instant a < instant b"
  using timestamp_less_digits [OF assms] timestamp_less_digits(3) [OF assms(2) assms(1)]
  by (simp add: instant_def digits_less_iff)

lemma timestamp_order_le:
  assumes "timestamp a" and "timestamp b"
  shows "sql_key (TextV a) \<le> sql_key (TextV b) \<longleftrightarrow> instant a \<le> instant b"
proof -
  have "a \<le> b \<longleftrightarrow> \<not> b < a" by auto
  also have "\<dots> \<longleftrightarrow> \<not> instant b < instant a"
    by (simp add: timestamp_order [OF assms(2) assms(1)])
  also have "\<dots> \<longleftrightarrow> instant a \<le> instant b" by auto
  finally show ?thesis by (simp add: less_eq_prod_def less_prod_def)
qed

end
